theory Spec2Isabelle
  imports Main "HOL-Library.Sublist" "HOL-Library.Char_ord" "HOL-Library.List_Lexorder"
    "HOL-Library.AList"
begin

section \<open>Strings as Python sees them\<close>

text \<open>
  A Python \<open>str\<close> is modelled as a \<open>string\<close> whose characters are code points below 256.
  \<open>isspace\<close> is the whitespace test behind \<open>str.strip()\<close> and the regular-expression
  class \<open>\s\<close> on that range; \<open>isdigit\<close> is the class \<open>[0-9]\<close>.
\<close>

definition isspace :: "char \<Rightarrow> bool" where
  "isspace c =
     (let n = (of_char c :: nat)
      in (9 \<le> n \<and> n \<le> 13) \<or> (28 \<le> n \<and> n \<le> 32) \<or> n = 133 \<or> n = 160)"

definition isdigit :: "char \<Rightarrow> bool" where
  "isdigit c = (let n = (of_char c :: nat) in 48 \<le> n \<and> n \<le> 57)"

definition strip :: "string \<Rightarrow> string" where
  "strip s = rev (dropWhile isspace (rev (dropWhile isspace s)))"

text \<open>\<open>str(n)\<close> for an integer, and \<open>int(ds)\<close> for a string of decimal digits.\<close>

fun str_nat :: "nat \<Rightarrow> string" where
  "str_nat n =
     (if n < 10 then [char_of (48 + n)]
      else str_nat (n div 10) @ [char_of (48 + n mod 10)])"

definition str_int :: "int \<Rightarrow> string" where
  "str_int i = (if i < 0 then CHR ''-'' # str_nat (nat (- i)) else str_nat (nat i))"

definition int_of_digits :: "string \<Rightarrow> int" where
  "int_of_digits ds = foldl (\<lambda>a c. 10 * a + (int (of_char c) - 48)) 0 ds"

text \<open>
  \<open>find_after pat s\<close> is what follows the leftmost occurrence of the literal \<open>pat\<close> in
  \<open>s\<close>, as \<open>re.search\<close> of a literal finds it.
\<close>

fun find_after :: "string \<Rightarrow> string \<Rightarrow> string option" where
  "find_after pat [] = (if pat = [] then Some [] else None)"
| "find_after pat (c # cs) =
     (if prefix pat (c # cs) then Some (drop (length pat) (c # cs)) else find_after pat cs)"

text \<open>\<open>os.path.join\<close> of two components, and \<open>os.path.basename\<close>.\<close>

definition path_join :: "string \<Rightarrow> string \<Rightarrow> string" where
  "path_join a b =
     (if prefix ''/'' b then b
      else if a = [] \<or> last a = CHR ''/'' then a @ b
      else a @ ''/'' @ b)"

definition basename :: "string \<Rightarrow> string" where
  "basename p = rev (takeWhile (\<lambda>c. c \<noteq> CHR ''/'') (rev p))"

text \<open>
  Wildcard matching, for the fragment of the glob syntax that the patterns of this program
  use: literal characters and a bracketed range \<open>[a-b]\<close>, which stands for exactly one
  character between \<open>a\<close> and \<open>b\<close>.
\<close>

fun glob_match :: "string \<Rightarrow> string \<Rightarrow> bool" where
  "glob_match [] s = (s = [])"
| "glob_match (p # ps) s =
     (if p = CHR ''['' \<and> 4 \<le> length ps \<and> ps ! 1 = CHR ''-'' \<and> ps ! 3 = CHR '']''
      then (case s of [] \<Rightarrow> False
            | c # cs \<Rightarrow> ps ! 0 \<le> c \<and> c \<le> ps ! 2 \<and> glob_match (drop 4 ps) cs)
      else (case s of [] \<Rightarrow> False | c # cs \<Rightarrow> p = c \<and> glob_match ps cs))"

section \<open>The class constants of \<open>Fuzzer\<close>\<close>

definition DEBUG_OPTIONS :: "string list" where
  "DEBUG_OPTIONS = [''handle_segv'', ''handle_bus'', ''handle_ill'', ''handle_fpe'', ''handle_abrt'']"

definition LOG_PATTERN :: string where
  "LOG_PATTERN = ''fuzz-[0-9].log''"

section \<open>The three patterns of \<open>_symbolize_log_impl\<close>\<close>

text \<open>
  \<open>pid_pattern = ^==([0-9]+)==\<close>: the line starts with \<open>==\<close>, one or more digits and
  \<open>==\<close>; the result is \<open>int(group(1))\<close>.
\<close>

definition pid_match :: "string \<Rightarrow> int option" where
  "pid_match line =
     (if prefix ''=='' line then
        (let rest = drop 2 line; ds = takeWhile isdigit rest
         in if ds \<noteq> [] \<and> prefix ''=='' (dropWhile isdigit rest)
            then Some (int_of_digits ds) else None)
      else None)"

text \<open>\<open>mut_pattern = ^MS: [0-9]*\<close>: the line starts with \<open>MS: \<close> (the digits are optional).\<close>

definition mut_match :: "string \<Rightarrow> bool" where
  "mut_match line = prefix ''MS: '' line"

text \<open>
  \<open>art_pattern = Test unit written to (data/\S*)\<close>, searched anywhere in the line: the
  result is \<open>group(1)\<close> of the leftmost match.
\<close>

definition art_match :: "string \<Rightarrow> string option" where
  "art_match line =
     (case find_after ''Test unit written to data/'' line of
        None \<Rightarrow> None
      | Some rest \<Rightarrow> Some (''data/'' @ takeWhile (\<lambda>c. \<not> isspace c) rest))"

section \<open>Errors, calls to collaborators, the environment\<close>

text \<open>
  \<open>host.error(...)\<close> prints its lines and exits the command; \<open>CalledProcessError\<close> carries
  the return code, the command line and the output; \<open>FileNotFoundError\<close> is raised by
  opening a missing file.
\<close>

datatype error =
    HostError "string list"
  | CalledProcessError int string string
  | FileNotFoundError string

text \<open>
  Every call the fuzzer makes on its collaborators (device, namespace, host, build
  environment, the launched process) is recorded, in order. Durations of \<open>Sleep\<close> are in
  milliseconds.
\<close>

datatype event =
    CsInfo
  | Ssh "string list"
  | Poll
  | Wait
  | Sleep nat
  | Mkdir string
  | NsLs string
  | NsFetch string "string list"
  | NsRemove string
  | NsStore string "string list"
  | GuessPid
  | DumpLog "string list"
  | Symbolize string
  | Echo string
  | Now
  | IsFile string
  | Glob string
  | OpenR string
  | OpenW string
  | Link string string
  | Remove string

text \<open>
  What lies outside the program answers each call as a function of everything that has
  happened so far (the calls made, the latest one included): the device and the launched
  process change on their own, so two equal calls may be answered differently.
  \<open>base_abspath\<close> is \<open>Namespace.base_abspath\<close>, which is not in the sources and is taken as
  a parameter.
\<close>

record env =
  reachable :: bool
  cs_info :: "event list \<Rightarrow> string list"
  ssh_returncode :: "event list \<Rightarrow> int"
  ssh_stdout :: "event list \<Rightarrow> string"
  proc_poll :: "event list \<Rightarrow> int option"
  proc_wait :: "event list \<Rightarrow> int"
  proc_stderr :: "event list \<Rightarrow> string list"
  remote_data :: "event list \<Rightarrow> (string \<times> string) list"
  device_isfile :: "event list \<Rightarrow> bool"
  store_result :: "event list \<Rightarrow> error + string list"
  guess_pid :: "event list \<Rightarrow> int"
  dump_log :: "event list \<Rightarrow> string"
  symbolize :: "event list \<Rightarrow> string"
  clock :: "event list \<Rightarrow> string"
  base_abspath :: "string \<Rightarrow> string"

section \<open>The fuzzer object\<close>

text \<open>
  The fields of \<open>Fuzzer\<close> that the operations below read or write, with three pieces of
  state its collaborators own: \<open>urls\<close>, the device's cache of running component URLs;
  \<open>files\<close>, the host's files (path and content); \<open>calls\<close>, the record of calls made.
  \<open>output_dir\<close> (the property \<open>output\<close>) holds the resolved output directory.
\<close>

record fuzzer =
  package :: string
  executable :: string
  package_url :: string
  executable_url :: string
  package_path :: "string option"
  dictionary_nspath :: "string option"
  corpus_nspaths :: "string list"
  options :: "(string \<times> string) list"
  libfuzzer_opts :: "(string \<times> string) list"
  libfuzzer_inputs :: "string list"
  subprocess_args :: "string list"
  debug :: bool
  foreground :: bool
  output_dir :: string
  logbase :: "string option"
  last_known_pid :: int
  urls :: "string list option"
  files :: "(string \<times> string) list"
  calls :: "event list"

definition call :: "event \<Rightarrow> fuzzer \<Rightarrow> fuzzer" where
  "call e s = s\<lparr>calls := calls s @ [e]\<rparr>"

text \<open>\<open>__str__\<close>: \<open>'{}/{}'.format(self.package, self.executable)\<close>.\<close>

definition str_fuzzer :: "fuzzer \<Rightarrow> string" where
  "str_fuzzer s = package s @ ''/'' @ executable s"

text \<open>A Python string-or-None used as a condition: \<open>None\<close> and \<open>''\<close> are false.\<close>

definition truthy :: "string option \<Rightarrow> bool" where
  "truthy x = (x \<noteq> None \<and> x \<noteq> Some [])"

section \<open>Collaborators\<close>

text \<open>
  Modelled from the spec: \<open>Namespace.data\<close>, \<open>Namespace.fetch\<close>, \<open>Namespace.ls\<close>,
  \<open>Namespace.remove\<close>, \<open>Device.guess_pid\<close>, \<open>Device.dump_log\<close>,
  \<open>BuildEnv.symbolize\<close> and the \<open>Host\<close> file operations are not in the sources. The paths of
  the namespace's data directory are \<open>data/<name>\<close> (the tests expect
  \<open>-artifact_prefix=data/\<close>). A fetch copies every remote file that one of its paths
  matches into the destination directory under its base name; listing and removal act on
  the files a path matches.
\<close>

definition ns_data :: "string \<Rightarrow> string" where
  "ns_data name = ''data/'' @ name"

definition fetched :: "env \<Rightarrow> event list \<Rightarrow> string list \<Rightarrow> (string \<times> string) list" where
  "fetched env h paths =
     concat (map (\<lambda>p. filter (\<lambda>(n, c). glob_match p (ns_data n)) (remote_data env h)) paths)"

definition ns_fetch :: "env \<Rightarrow> string \<Rightarrow> string list \<Rightarrow> fuzzer \<Rightarrow> fuzzer" where
  "ns_fetch env dst paths s =
     (let s = call (NsFetch dst paths) s
      in s\<lparr>files := fold (\<lambda>(n, c). AList.update (path_join dst (basename n)) c)
                        (fetched env (calls s) paths) (files s)\<rparr>)"

definition remote_ls :: "env \<Rightarrow> event list \<Rightarrow> string \<Rightarrow> string list" where
  "remote_ls env h path = filter (glob_match path) (map (ns_data \<circ> fst) (remote_data env h))"

definition ns_ls :: "env \<Rightarrow> string \<Rightarrow> fuzzer \<Rightarrow> string list \<times> fuzzer" where
  "ns_ls env path s = (let s = call (NsLs path) s in (remote_ls env (calls s) path, s))"

definition ns_remove :: "string \<Rightarrow> fuzzer \<Rightarrow> fuzzer" where
  "ns_remove path s = call (NsRemove path) s"

definition device_guess_pid :: "env \<Rightarrow> fuzzer \<Rightarrow> int \<times> fuzzer" where
  "device_guess_pid env s = (let s = call GuessPid s in (guess_pid env (calls s), s))"

definition device_dump_log :: "env \<Rightarrow> string list \<Rightarrow> fuzzer \<Rightarrow> string \<times> fuzzer" where
  "device_dump_log env args s = (let s = call (DumpLog args) s in (dump_log env (calls s), s))"

definition buildenv_symbolize :: "env \<Rightarrow> string \<Rightarrow> fuzzer \<Rightarrow> string \<times> fuzzer" where
  "buildenv_symbolize env raw s = (let s = call (Symbolize raw) s in (symbolize env (calls s), s))"

definition host_echo :: "string \<Rightarrow> fuzzer \<Rightarrow> fuzzer" where
  "host_echo text s = call (Echo text) s"

section \<open>\<open>_symbolize_log_impl\<close>\<close>

text \<open>The local variables of the loop; \<open>fd_out\<close> collects what is written, in order.\<close>

record symbolize_vars =
  pid :: int
  sym_out :: "string option"
  artifacts :: "string list"
  fd_out :: "string list"

text \<open>\<open>if pid_match: pid = int(pid_match.group(1)); self._last_known_pid = pid\<close>\<close>

definition on_pid :: "string \<Rightarrow> symbolize_vars \<times> fuzzer \<Rightarrow> symbolize_vars \<times> fuzzer" where
  "on_pid line vs =
     (case pid_match line of
        None \<Rightarrow> vs
      | Some p \<Rightarrow> ((fst vs)\<lparr>pid := p\<rparr>, (snd vs)\<lparr>last_known_pid := p\<rparr>))"

text \<open>
  The body of \<open>if mut_match:\<close>. The guard \<open>if not sym\<close> holds when \<open>sym\<close> is \<open>None\<close>
  and also when it is the empty string.
\<close>

definition on_mut :: "env \<Rightarrow> bool \<Rightarrow> symbolize_vars \<times> fuzzer \<Rightarrow> symbolize_vars \<times> fuzzer" where
  "on_mut env echo vs =
     (let (v, s) = vs;
          (v, s) = (if pid v \<le> 0
                    then (let (p, s) = device_guess_pid env s in (v\<lparr>pid := p\<rparr>, s))
                    else (v, s))
      in if \<not> truthy (sym_out v) then
           (let (raw, s) = device_dump_log env [''--pid'', str_int (pid v)] s;
                (sm, s) = buildenv_symbolize env raw s;
                v = v\<lparr>sym_out := Some sm, fd_out := fd_out v @ [sm]\<rparr>
            in (v, if echo then host_echo (strip sm) s else s))
         else (v, s))"

definition symbolize_line ::
  "env \<Rightarrow> bool \<Rightarrow> string \<Rightarrow> symbolize_vars \<times> fuzzer \<Rightarrow> symbolize_vars \<times> fuzzer" where
  "symbolize_line env echo line vs =
     (let (v, s) = on_pid line vs;
          (v, s) = (if mut_match line then on_mut env echo (v, s) else (v, s));
          v = (case art_match line of
                 None \<Rightarrow> v
               | Some a \<Rightarrow> v\<lparr>artifacts := artifacts v @ [a]\<rparr>);
          v = v\<lparr>fd_out := fd_out v @ [line]\<rparr>
      in (v, if echo then host_echo (strip line) s else s))"

text \<open>
  \<open>fd_in\<close> is the sequence of results of \<open>readline()\<close>; \<open>iter(fd_in.readline, '')\<close> stops at
  the first empty one. The result is \<open>sym != None\<close>, what was written to \<open>fd_out\<close>, and the
  fuzzer.
\<close>

definition symbolize_loop ::
  "env \<Rightarrow> bool \<Rightarrow> string list \<Rightarrow> symbolize_vars \<times> fuzzer \<Rightarrow> symbolize_vars \<times> fuzzer" where
  "symbolize_loop env echo fd_in vs =
     fold (symbolize_line env echo) (takeWhile (\<lambda>line. line \<noteq> []) fd_in) vs"

definition symbolize_log_impl ::
  "env \<Rightarrow> string list \<Rightarrow> bool \<Rightarrow> fuzzer \<Rightarrow> (bool \<times> string list) \<times> fuzzer" where
  "symbolize_log_impl env fd_in echo s =
     (let (v, s) = symbolize_loop env echo fd_in
                     (\<lparr>pid = - 1, sym_out = None, artifacts = [], fd_out = []\<rparr>, s);
          s = (if artifacts v \<noteq> [] then ns_fetch env (output_dir s) (artifacts v) s else s)
      in ((sym_out v \<noteq> None, fd_out v), s))"

section \<open>\<open>logfile\<close> and \<open>symbolize_log\<close>\<close>

text \<open>
  \<open>logfile\<close> fixes the time stamp of the run's logs on first use.
  \<open>symbolize_log\<close> opens the log for writing, runs the loop, and links the log as the
  latest one; the link is modelled as a file of the same content.
\<close>

definition logfile :: "env \<Rightarrow> nat \<Rightarrow> fuzzer \<Rightarrow> string \<times> fuzzer" where
  "logfile env job_num s =
     (let s = (if \<not> truthy (logbase s)
               then (let s = call Now s in s\<lparr>logbase := Some (clock env (calls s))\<rparr>)
               else s)
      in (path_join (output_dir s) (''fuzz-'' @ the (logbase s) @ ''-'' @ str_nat job_num @ ''.log''), s))"

definition symbolize_log ::
  "env \<Rightarrow> string list \<Rightarrow> nat \<Rightarrow> bool \<Rightarrow> fuzzer \<Rightarrow> bool \<times> fuzzer" where
  "symbolize_log env fd_in job_num echo s =
     (let (filename_out, s) = logfile env job_num s;
          s = call (OpenW filename_out) s;
          ((found, written), s) = symbolize_log_impl env fd_in echo s;
          s = s\<lparr>files := AList.update filename_out (concat written) (files s)\<rparr>;
          latest = path_join (output_dir s) ''fuzz-latest.log'';
          s = call (Link filename_out latest) s;
          s = s\<lparr>files := AList.update latest (concat written) (files s)\<rparr>
      in (found, s))"

section \<open>Liveness, \<open>require_stopped\<close>, \<open>stop\<close>\<close>

text \<open>
  Modelled from the spec: \<open>Device.v1_component_is_running\<close> is not in the sources. The
  spec's RunState is a liveness query result that ``is cached until an explicit refresh is
  requested'', and the unit test of \<open>is_running\<close> says ``Results are cached until
  refresh''. The device keeps the URLs of the last query; it queries the remote side when
  it has no result yet or when a refresh is asked for.
\<close>

definition v1_component_is_running :: "env \<Rightarrow> string \<Rightarrow> bool \<Rightarrow> fuzzer \<Rightarrow> bool \<times> fuzzer" where
  "v1_component_is_running env url refresh s =
     (case (if refresh then None else urls s) of
        None \<Rightarrow> (let s = call CsInfo s; us = cs_info env (calls s)
                 in (url \<in> set us, s\<lparr>urls := Some us\<rparr>))
      | Some us \<Rightarrow> (url \<in> set us, s))"

text \<open>\<open>is_running(self, refresh=False)\<close>: the default of \<open>refresh\<close> is at the call sites.\<close>

definition is_running :: "env \<Rightarrow> bool \<Rightarrow> fuzzer \<Rightarrow> bool \<times> fuzzer" where
  "is_running env refresh s = v1_component_is_running env (executable_url s) refresh s"

definition require_stopped :: "env \<Rightarrow> fuzzer \<Rightarrow> (error + unit) \<times> fuzzer" where
  "require_stopped env s =
     (let (running, s) = is_running env True s
      in if running
         then (Inl (HostError [str_fuzzer s @ '' is running and must be stopped first.'']), s)
         else (Inr (), s))"

text \<open>\<open>' '.join(cmd)\<close>, and \<open>device.ssh(cmd).check_call()\<close>.\<close>

fun join_words :: "string list \<Rightarrow> string" where
  "join_words [] = []"
| "join_words [w] = w"
| "join_words (w # ws) = w @ '' '' @ join_words ws"

definition ssh_check_call :: "env \<Rightarrow> string list \<Rightarrow> fuzzer \<Rightarrow> (error + unit) \<times> fuzzer" where
  "ssh_check_call env cmd s =
     (let s = call (Ssh cmd) s; rc = ssh_returncode env (calls s)
      in if rc \<noteq> 0 then (Inl (CalledProcessError rc (join_words cmd) []), s) else (Inr (), s))"

text \<open>\<open>stop\<close> calls \<open>self.is_running()\<close>, that is, with \<open>refresh=False\<close>.\<close>

definition stop :: "env \<Rightarrow> fuzzer \<Rightarrow> (error + unit) \<times> fuzzer" where
  "stop env s =
     (let (running, s) = is_running env False s
      in if running then ssh_check_call env [''killall'', executable s @ ''.cmx''] s
         else (Inr (), s))"

section \<open>\<open>is_resolved\<close>\<close>

text \<open>
  \<open>re.search(r'Package on disk: yes \(path=(.*)\)', str(out))\<close>: the leftmost occurrence
  of the literal part that is followed, on the same line, by a closing parenthesis; the
  group is greedy, so it ends before the last closing parenthesis of that line.
\<close>

fun pkg_path_match :: "string \<Rightarrow> string option" where
  "pkg_path_match [] = None"
| "pkg_path_match (c # cs) =
     (let pat = ''Package on disk: yes (path='';
          line = takeWhile (\<lambda>x. x \<noteq> CHR 0x0A) (drop (length pat) (c # cs))
      in if prefix pat (c # cs) \<and> CHR '')'' \<in> set line
         then Some (rev (tl (dropWhile (\<lambda>x. x \<noteq> CHR '')'') (rev line))))
         else pkg_path_match cs)"

text \<open>
  The result is the truth value returned, or the exception raised. The package status
  command's return code and output are the environment's answers to the \<open>Ssh\<close> call.
\<close>

definition is_resolved :: "env \<Rightarrow> fuzzer \<Rightarrow> (error + bool) \<times> fuzzer" where
  "is_resolved env s =
     (if \<not> reachable env then (Inr False, s)
      else if truthy (package_path s) then (Inr True, s)
      else
        (let base_cmx = base_abspath env (''meta/'' @ executable s @ ''.cmx'');
             s = call (IsFile base_cmx) s
         in if device_isfile env (calls s)
            then (Inr True, s\<lparr>package_path := Some (base_abspath env [])\<rparr>)
            else
              (let cmd = [''pkgctl'', ''pkg-status'', package_url s];
                   s = call (Ssh cmd) s;
                   out = ssh_stdout env (calls s);
                   returncode = ssh_returncode env (calls s)
               in if returncode \<noteq> 0 \<and> returncode \<noteq> 2
                  then (Inl (CalledProcessError returncode (join_words cmd) out), s)
                  else (case pkg_path_match out of
                          None \<Rightarrow> (Inr False, s)
                        | Some path \<Rightarrow> (Inr True, s\<lparr>package_path := Some path\<rparr>)))))"

section \<open>\<open>_launch\<close>, \<open>start\<close>, \<open>repro\<close>\<close>

definition host_sleep :: "nat \<Rightarrow> fuzzer \<Rightarrow> fuzzer" where
  "host_sleep ms s = call (Sleep ms) s"

text \<open>The option dictionary that \<open>_launch\<close> completes, and the command it runs.\<close>

definition launch_options :: "fuzzer \<Rightarrow> (string \<times> string) list" where
  "launch_options s =
     (let opts = (if \<not> foreground s then AList.update ''jobs'' ''1'' (options s) else options s);
          opts = fold (\<lambda>option opts. if debug s then AList.update option ''0'' opts else opts)
                   DEBUG_OPTIONS opts
      in fold (\<lambda>(k, v). AList.update k v) (libfuzzer_opts s) opts)"

definition fuzz_cmd :: "fuzzer \<Rightarrow> string list" where
  "fuzz_cmd s =
     [''run'', executable_url s]
     @ map (\<lambda>(k, v). ''-'' @ k @ ''='' @ v) (sort_key fst (options s))
     @ libfuzzer_inputs s
     @ (if subprocess_args s \<noteq> [] then ''--'' # subprocess_args s else [])"

text \<open>
  \<open>while proc.poll() == None and not self.ns.ls(logs): self.host.sleep(0.5)\<close>. The loop
  need not end: it is a partial function, \<open>None\<close> when it runs forever.
\<close>

partial_function (option) launch_wait :: "env \<Rightarrow> string \<Rightarrow> fuzzer \<Rightarrow> fuzzer option" where
  "launch_wait env logs s =
     (if proc_poll env (calls (call Poll s)) = None
      then (if fst (ns_ls env logs (call Poll s)) = []
            then launch_wait env logs (host_sleep 500 (snd (ns_ls env logs (call Poll s))))
            else Some (snd (ns_ls env logs (call Poll s))))
      else Some (call Poll s))"

text \<open>
  The first half of \<open>_launch\<close>, up to \<open>proc = cmd.popen()\<close>: the options are
  completed, the output directory is made, the last known pid is reset and the command is
  started on the device.
\<close>

definition launch_popen :: "fuzzer \<Rightarrow> fuzzer" where
  "launch_popen s =
     (let s = s\<lparr>options := launch_options s\<rparr>;
          cmd = fuzz_cmd s;
          s = call (Mkdir (output_dir s)) s;
          s = s\<lparr>last_known_pid := 0\<rparr>
      in call (Ssh cmd) s)"

definition launch :: "env \<Rightarrow> fuzzer \<Rightarrow> ((error + unit) \<times> fuzzer) option" where
  "launch env s =
     (let s = launch_popen s
      in if foreground s then Some (Inr (), s)
         else (case launch_wait env (ns_data LOG_PATTERN) s of
                 None \<Rightarrow> None
               | Some s \<Rightarrow>
                   (let (found, s) = ns_ls env (ns_data LOG_PATTERN) s
                    in if found = []
                       then Some (Inl (HostError [str_fuzzer s @ '' failed to start.'']), s)
                       else Some (Inr (), s))))"

text \<open>
  The part of \<open>start\<close> after \<open>_launch\<close>: in the foreground the output of the process is
  symbolized as job 0 and echoed, then the process is waited for.
\<close>

definition start_foreground :: "env \<Rightarrow> fuzzer \<Rightarrow> fuzzer" where
  "start_foreground env s =
     (if foreground s
      then call Wait (snd (symbolize_log env (proc_stderr env (calls s)) 0 True s))
      else s)"

definition start :: "env \<Rightarrow> fuzzer \<Rightarrow> ((error + unit) \<times> fuzzer) option" where
  "start env s =
     (case require_stopped env s of
        (Inl e, s) \<Rightarrow> Some (Inl e, s)
      | (Inr _, s) \<Rightarrow>
          (let s = (case dictionary_nspath s of
                      None \<Rightarrow> s
                    | Some d \<Rightarrow> if d \<noteq> [] then s\<lparr>options := AList.update ''dict'' d (options s)\<rparr>
                                else s);
               s = s\<lparr>libfuzzer_inputs := corpus_nspaths s\<rparr>;
               s = ns_remove (ns_data LOG_PATTERN) s
           in (case launch env s of
                 None \<Rightarrow> None
               | Some (Inl e, s) \<Rightarrow> Some (Inl e, s)
               | Some (Inr _, s) \<Rightarrow> Some (Inr (), start_foreground env s))))"

text \<open>
  The end of \<open>repro\<close>, after \<open>proc.wait()\<close> has returned \<open>returncode\<close>: nothing more on
  zero; otherwise the dump of the last known pid, or of a guessed one when that is not
  positive, is fetched, symbolized and echoed.
\<close>

definition repro_after_wait :: "env \<Rightarrow> int \<Rightarrow> fuzzer \<Rightarrow> fuzzer" where
  "repro_after_wait env returncode s =
     (if returncode = 0 then s
      else
        (let (pid, s) = (if last_known_pid s \<le> 0 then device_guess_pid env s
                         else (last_known_pid s, s));
             (raw, s) = device_dump_log env [''--pid'', str_int pid] s;
             (sm, s) = buildenv_symbolize env raw s
         in host_echo (strip sm) s))"

definition repro :: "env \<Rightarrow> fuzzer \<Rightarrow> ((error + unit) \<times> fuzzer) option" where
  "repro env s =
     (if libfuzzer_inputs s = []
      then Some (Inl (HostError [''No units provided.'',
                   ''Try '' @ [CHR 0x22] @ ''fx fuzz help'' @ [CHR 0x22] @ ''.'']), s)
      else
        (case require_stopped env s of
           (Inl e, s) \<Rightarrow> Some (Inl e, s)
         | (Inr _, s) \<Rightarrow>
             (let s = call (NsStore (ns_data []) (libfuzzer_inputs s)) s
              in (case store_result env (calls s) of
                    Inl e \<Rightarrow> Some (Inl e, s)
                  | Inr paths \<Rightarrow>
                      (case launch env (s\<lparr>libfuzzer_inputs := paths, foreground := True\<rparr>) of
                         None \<Rightarrow> None
                       | Some (Inl e, s) \<Rightarrow> Some (Inl e, s)
                       | Some (Inr _, s) \<Rightarrow>
                           (let s = snd (symbolize_log env (proc_stderr env (calls s)) 0 True s);
                                s = call Wait s
                            in Some (Inr (), repro_after_wait env (proc_wait env (calls s)) s)))))))"

section \<open>\<open>monitor\<close>\<close>

text \<open>
  Modelled from the spec: \<open>Host.glob\<close>, \<open>Host.open\<close> and \<open>Host.remove\<close> are not in the
  sources. The glob gives the matching host files as a sorted list without repetition;
  opening a file that does not exist fails.
\<close>

definition host_glob :: "string \<Rightarrow> fuzzer \<Rightarrow> string list \<times> fuzzer" where
  "host_glob pattern s =
     (let s = call (Glob pattern) s
      in (sort (remdups (filter (glob_match pattern) (map fst (files s)))), s))"

definition host_remove :: "string \<Rightarrow> fuzzer \<Rightarrow> fuzzer" where
  "host_remove path s = (call (Remove path) s)\<lparr>files := AList.delete path (files s)\<rparr>"

text \<open>The successive results of \<open>readline()\<close> on a file of the given content.\<close>

function readlines :: "string \<Rightarrow> string list" where
  "readlines [] = []"
| "readlines (c # cs) =
     (case dropWhile (\<lambda>x. x \<noteq> CHR 0x0A) (c # cs) of
        [] \<Rightarrow> [c # cs]
      | _ # rest \<Rightarrow> (takeWhile (\<lambda>x. x \<noteq> CHR 0x0A) (c # cs) @ [CHR 0x0A]) # readlines rest)"
  by pat_completeness auto
termination
proof (relation "measure length")
  show "wf (measure length)" by simp
next
  fix c :: char and cs x21 x22
  assume "dropWhile (\<lambda>x. x \<noteq> CHR 0x0A) (c # cs) = x21 # x22"
  then have "length (x21 # x22) \<le> length (c # cs)"
    using length_dropWhile_le[of "\<lambda>x. x \<noteq> CHR 0x0A" "c # cs"] by simp
  then show "(x22, c # cs) \<in> measure length" by simp
qed

text \<open>
  \<open>while self.is_running(refresh=True): self.host.sleep(2)\<close>, a partial function for the
  same reason as the loop of \<open>_launch\<close>.
\<close>

partial_function (option) monitor_wait :: "env \<Rightarrow> fuzzer \<Rightarrow> fuzzer option" where
  "monitor_wait env s =
     (if fst (is_running env True s)
      then monitor_wait env (host_sleep 2000 (snd (is_running env True s)))
      else Some (snd (is_running env True s)))"

text \<open>The loop over \<open>enumerate(logs)\<close>.\<close>

fun monitor_logs :: "env \<Rightarrow> (nat \<times> string) list \<Rightarrow> fuzzer \<Rightarrow> (error + unit) \<times> fuzzer" where
  "monitor_logs env [] s = (Inr (), s)"
| "monitor_logs env ((job_num, log) # rest) s =
     (let s = call (OpenR log) s
      in (case map_of (files s) log of
            None \<Rightarrow> (Inl (FileNotFoundError log), s)
          | Some content \<Rightarrow>
              (let s = snd (symbolize_log env (readlines content) job_num False s);
                   s = host_remove log s
               in monitor_logs env rest s)))"

definition monitor_retrieve :: "env \<Rightarrow> fuzzer \<Rightarrow> (error + unit) \<times> fuzzer" where
  "monitor_retrieve env s =
     (let logs = ns_data LOG_PATTERN;
          s = ns_fetch env (output_dir s) [logs] s;
          s = ns_remove logs s;
          (logs, s) = host_glob (path_join (output_dir s) LOG_PATTERN) s
      in monitor_logs env (enumerate 0 logs) s)"

definition monitor :: "env \<Rightarrow> fuzzer \<Rightarrow> ((error + unit) \<times> fuzzer) option" where
  "monitor env s =
     (case monitor_wait env s of
        None \<Rightarrow> None
      | Some s \<Rightarrow> Some (monitor_retrieve env s))"

section \<open>Reading the record of calls\<close>

text \<open>The calls made between two states, and the kinds of call the properties speak of.\<close>

definition new_calls :: "fuzzer \<Rightarrow> fuzzer \<Rightarrow> event list" where
  "new_calls s s' = drop (length (calls s)) (calls s')"

fun sym_event :: "event \<Rightarrow> bool" where
  "sym_event GuessPid = True"
| "sym_event (DumpLog _) = True"
| "sym_event (Symbolize _) = True"
| "sym_event (Echo _) = True"
| "sym_event _ = False"

fun is_fetch :: "event \<Rightarrow> bool" where
  "is_fetch (NsFetch _ _) = True"
| "is_fetch _ = False"

fun is_symbolize :: "event \<Rightarrow> bool" where
  "is_symbolize (Symbolize _) = True"
| "is_symbolize _ = False"

fun is_dump_log :: "event \<Rightarrow> bool" where
  "is_dump_log (DumpLog _) = True"
| "is_dump_log _ = False"

text \<open>The artifact references of a log, in the order of their lines, duplicates kept.\<close>

definition artifact_refs :: "string list \<Rightarrow> string list" where
  "artifact_refs fd_in = List.map_filter art_match (takeWhile (\<lambda>line. line \<noteq> []) fd_in)"

section \<open>Concrete inputs\<close>

text \<open>
  A quiet environment and the fuzzer of the unit tests, \<open>fake-package1/fake-target1\<close>,
  with log lines as libFuzzer prints them.
\<close>

definition env0 :: env where
  "env0 = \<lparr>reachable = True, cs_info = (\<lambda>h. []), ssh_returncode = (\<lambda>h. 0),
     ssh_stdout = (\<lambda>h. []), proc_poll = (\<lambda>h. Some 0), proc_wait = (\<lambda>h. 0),
     proc_stderr = (\<lambda>h. []), remote_data = (\<lambda>h. []), device_isfile = (\<lambda>h. False),
     store_result = (\<lambda>h. Inr []), guess_pid = (\<lambda>h. 7), dump_log = (\<lambda>h. ''raw log''),
     symbolize = (\<lambda>h. ''[[symbolizer output]]''), clock = (\<lambda>h. ''2021-01-01-0000''),
     base_abspath = (\<lambda>p. ''/pkgfs/packages/fake-package1/0/'' @ p)\<rparr>"

definition fuzzer0 :: fuzzer where
  "fuzzer0 = \<lparr>package = ''fake-package1'', executable = ''fake-target1'',
     package_url = ''fuchsia-pkg://fuchsia.com/fake-package1'',
     executable_url = ''fuchsia-pkg://fuchsia.com/fake-package1#meta/fake-target1.cmx'',
     package_path = None, dictionary_nspath = None, corpus_nspaths = [''data/corpus''],
     options = [(''artifact_prefix'', ''data/'')], libfuzzer_opts = [], libfuzzer_inputs = [],
     subprocess_args = [], debug = False, foreground = False, output_dir = ''out'',
     logbase = None, last_known_pid = 0, urls = None, files = [], calls = []\<rparr>"

definition crash_line :: string where
  "crash_line = ''Test unit written to data/crash-X'' @ [CHR 0x0A]"

definition ms_line :: string where
  "ms_line = ''MS: 1 SomeMutation; base unit: foo'' @ [CHR 0x0A]"

text \<open>An environment whose symbolizer prints nothing for the dump it is given.\<close>

definition env_empty_dump :: env where
  "env_empty_dump = env0\<lparr>symbolize := (\<lambda>h. [])\<rparr>"

text \<open>The paths handed to the namespace's fetch, over a sequence of calls.\<close>

fun fetch_paths :: "event \<Rightarrow> string list" where
  "fetch_paths (NsFetch _ paths) = paths"
| "fetch_paths _ = []"

definition fetched_paths :: "event list \<Rightarrow> string list" where
  "fetched_paths evs = concat (map fetch_paths evs)"

text \<open>A fuzzer whose device holds a cached liveness result that says it is running.\<close>

definition fuzzer_stale :: fuzzer where
  "fuzzer_stale = fuzzer0\<lparr>urls := Some [executable_url fuzzer0]\<rparr>"

text \<open>
  A package status answer with return code 2 whose output reports the package missing, as
  in the unit test of \<open>resolve\<close>.
\<close>

definition env_status2_no :: env where
  "env_status2_no = env0\<lparr>ssh_returncode := (\<lambda>h. 2),
     ssh_stdout := (\<lambda>h. ''Package on disk: no'')\<rparr>"

text \<open>
  The calls of \<open>k\<close> rounds of the launch loop that found the process alive and no log.
\<close>

definition poll_rounds :: "nat \<Rightarrow> event list" where
  "poll_rounds k = concat (replicate k [Poll, NsLs (ns_data LOG_PATTERN), Sleep 500])"

text \<open>A fuzzer that is running on the device.\<close>

definition env_running :: env where
  "env_running = env0\<lparr>cs_info := (\<lambda>h. [executable_url fuzzer0])\<rparr>"

text \<open>A reproduction of one unit whose output has a mutation-sequence line and whose exit is clean.\<close>

definition fuzzer_repro :: fuzzer where
  "fuzzer_repro = fuzzer0\<lparr>libfuzzer_inputs := [''crash-deadbeef'']\<rparr>"

definition env_repro_ms :: env where
  "env_repro_ms = env0\<lparr>proc_stderr := (\<lambda>h. [ms_line]),
     store_result := (\<lambda>h. Inr [''data/crash-deadbeef''])\<rparr>"

text \<open>A reproduction that prints nothing and exits with code 77, as in the unit test.\<close>

definition env_repro_crash :: env where
  "env_repro_crash = env0\<lparr>proc_wait := (\<lambda>h. 77),
     store_result := (\<lambda>h. Inr [''data/crash-deadbeef''])\<rparr>"

text \<open>
  The calls on host files, the calls of \<open>k\<close> rounds of the monitor loop that found the
  process running, and the file calls of the loop over the logs: each log is opened,
  its symbolized log is opened for writing under the job index of its position, and the
  log is removed. \<open>bs\<close> are the time stamps in the names of the symbolized logs.
\<close>

fun is_file_event :: "event \<Rightarrow> bool" where
  "is_file_event (OpenR _) = True"
| "is_file_event (OpenW _) = True"
| "is_file_event (Remove _) = True"
| "is_file_event _ = False"

fun is_remote_remove :: "event \<Rightarrow> bool" where
  "is_remote_remove (NsRemove _) = True"
| "is_remote_remove _ = False"

definition wait_rounds :: "nat \<Rightarrow> event list" where
  "wait_rounds k = concat (replicate k [CsInfo, Sleep 2000])"

definition log_steps :: "string \<Rightarrow> nat \<Rightarrow> string list \<Rightarrow> string list \<Rightarrow> event list" where
  "log_steps out k logs bs =
     concat (map (\<lambda>(job_num, log, b).
                    [OpenR log,
                     OpenW (path_join out (''fuzz-'' @ b @ ''-'' @ str_nat job_num @ ''.log'')),
                     Remove log])
                 (enumerate k (zip logs bs)))"

text \<open>
  The host files that the log pattern matches in the output directory once the remote
  logs have been fetched into it, sorted: what \<open>monitor\<close> gets from its glob.
\<close>

definition local_logs :: "env \<Rightarrow> fuzzer \<Rightarrow> string list" where
  "local_logs env s =
     fst (host_glob (path_join (output_dir s) LOG_PATTERN)
            (ns_remove (ns_data LOG_PATTERN)
               (ns_fetch env (output_dir s) [ns_data LOG_PATTERN] s)))"



text \<open>
  What the symbolizer printed at each of its calls among \<open>evs\<close>, made after the calls
  \<open>h\<close>, in order.
\<close>

fun symbolizer_outputs :: "env \<Rightarrow> event list \<Rightarrow> event list \<Rightarrow> string list" where
  "symbolizer_outputs env h [] = []"
| "symbolizer_outputs env h (e # evs) =
     (if is_symbolize e then [symbolize env (h @ [e])] else [])
     @ symbolizer_outputs env (h @ [e]) evs"

text \<open>
  The lines of a log with the dumps \<open>ds\<close> spliced in: the first dump immediately before
  the first line that matches the mutation-sequence pattern, the second before the second
  such line, and so on while there are dumps.
\<close>

fun splice :: "string list \<Rightarrow> string list \<Rightarrow> string list" where
  "splice [] ds = []"
| "splice (l # ls) ds =
     (if mut_match l
      then (case ds of [] \<Rightarrow> l # ls | d # ds' \<Rightarrow> d # l # splice ls ds')
      else l # splice ls ds)"

text \<open>
  The pid that the output of a run shows: that of the last line, before the end of input,
  that starts with \<open>==<pid>==\<close>; 0, the value \<open>_launch\<close> resets the last known pid to,
  when there is no such line.
\<close>

definition observed_pid :: "string list \<Rightarrow> int" where
  "observed_pid fd_in =
     (let pids = List.map_filter pid_match (takeWhile (\<lambda>line. line \<noteq> []) fd_in)
      in if pids = [] then 0 else last pids)"

text \<open>
  A reproduction that prints a sanitizer report of process 5, without a mutation-sequence
  line, and exits with code 77.
\<close>

definition pid_line :: string where
  "pid_line = ''==5==ERROR: AddressSanitizer: SEGV'' @ [CHR 0x0A]"

definition env_repro_pid :: env where
  "env_repro_pid = env0\<lparr>proc_wait := (\<lambda>h. 77),
     proc_stderr := (\<lambda>h. [pid_line]),
     store_result := (\<lambda>h. Inr [''data/crash-deadbeef''])\<rparr>"



text \<open>
  Devices that hold the log of job 10: one next to the log of job 0, which names the log
  of job 10 as a written test unit; one with no other log, whose process is found alive by
  the first two polls of a launch and has exited at the third.
\<close>

definition env_job10 :: env where
  "env_job10 = env0\<lparr>remote_data := (\<lambda>h.
     [(''fuzz-0.log'', ''Test unit written to data/fuzz-10.log'' @ [CHR 0x0A]),
      (''fuzz-10.log'', ''log of job 10'')])\<rparr>"

definition env_job10_launch :: env where
  "env_job10_launch = env0\<lparr>remote_data := (\<lambda>h. [(''fuzz-10.log'', ''log of job 10'')]),
     proc_poll := (\<lambda>h. if length h < 8 then None else Some 1)\<rparr>"

declare str_nat.simps [simp del]

section \<open>Properties of the log symbolizer\<close>

lemma fold_invariant:
  "I a \<Longrightarrow> (\<And>x a. I a \<Longrightarrow> I (f x a)) \<Longrightarrow> I (fold f xs a)"
  by (induction xs arbitrary: a) auto

lemma symbolize_line_unfold:
  "symbolize_line env echo line vs =
     (let vs1 = on_pid line vs;
          vs2 = (if mut_match line then on_mut env echo vs1 else vs1);
          v = (case art_match line of None \<Rightarrow> fst vs2
               | Some a \<Rightarrow> (fst vs2)\<lparr>artifacts := artifacts (fst vs2) @ [a]\<rparr>)
      in (v\<lparr>fd_out := fd_out v @ [line]\<rparr>,
          if echo then host_echo (strip line) (snd vs2) else snd vs2))"
  by (cases "mut_match line"; cases echo; cases "art_match line")
     (simp_all add: symbolize_line_def Let_def case_prod_beta)

lemma on_pid_ex: "\<exists>v' p. on_pid line (v, s) = (v', s\<lparr>last_known_pid := p\<rparr>)"
proof (cases "pid_match line")
  case None
  have "on_pid line (v, s) = (v, s\<lparr>last_known_pid := last_known_pid s\<rparr>)"
    by (simp add: on_pid_def None)
  then show ?thesis by blast
next
  case (Some p)
  have "on_pid line (v, s) = (v\<lparr>pid := p\<rparr>, s\<lparr>last_known_pid := p\<rparr>)"
    by (simp add: on_pid_def Some)
  then show ?thesis by blast
qed

lemma on_pid_keeps:
  "sym_out (fst (on_pid line vs)) = sym_out (fst vs)"
  "artifacts (fst (on_pid line vs)) = artifacts (fst vs)"
  "calls (snd (on_pid line vs)) = calls (snd vs)"
  by (simp_all add: on_pid_def split: option.splits)

lemma on_mut_frame:
  "snd (on_mut env echo (v, s)) = s\<lparr>calls := calls (snd (on_mut env echo (v, s)))\<rparr>"
  by (simp add: on_mut_def Let_def call_def host_echo_def
           device_guess_pid_def device_dump_log_def buildenv_symbolize_def
           split: prod.splits)

lemma on_mut_calls:
  "\<exists>evs. calls (snd (on_mut env echo (v, s))) = calls s @ evs \<and> (\<forall>e\<in>set evs. sym_event e)"
  by (simp add: on_mut_def Let_def call_def host_echo_def
           device_guess_pid_def device_dump_log_def buildenv_symbolize_def
           split: prod.splits)

lemma on_mut_ex:
  "\<exists>evs. snd (on_mut env echo (v, s)) = s\<lparr>calls := calls s @ evs\<rparr> \<and> (\<forall>e\<in>set evs. sym_event e)"
proof -
  obtain evs where e: "calls (snd (on_mut env echo (v, s))) = calls s @ evs" "\<forall>e\<in>set evs. sym_event e"
    using on_mut_calls by blast
  have "snd (on_mut env echo (v, s)) = s\<lparr>calls := calls s @ evs\<rparr>"
    using on_mut_frame[of env echo v s] e(1) by simp
  with e(2) show ?thesis by blast
qed

lemma on_mut_keeps:
  "artifacts (fst (on_mut env echo vs)) = artifacts (fst vs)"
  by (cases vs)
     (simp add: on_mut_def Let_def device_guess_pid_def device_dump_log_def
        buildenv_symbolize_def split: prod.splits)

lemma on_mut_sym_out: "\<exists>y. sym_out (fst (on_mut env echo vs)) = Some y"
  by (cases vs)
     (auto simp: on_mut_def Let_def truthy_def device_guess_pid_def device_dump_log_def
        buildenv_symbolize_def split: prod.splits)

lemma symbolize_line_ex:
  "\<exists>p evs. snd (symbolize_line env echo line (v, s)) = s\<lparr>last_known_pid := p, calls := calls s @ evs\<rparr>
      \<and> (\<forall>e\<in>set evs. sym_event e)"
proof -
  obtain v1 p where a: "on_pid line (v, s) = (v1, s\<lparr>last_known_pid := p\<rparr>)"
    using on_pid_ex by blast
  obtain evs where m:
    "snd (on_mut env echo (v1, s\<lparr>last_known_pid := p\<rparr>)) = s\<lparr>last_known_pid := p, calls := calls s @ evs\<rparr>"
    "\<forall>e\<in>set evs. sym_event e"
    using on_mut_ex[of env echo v1 "s\<lparr>last_known_pid := p\<rparr>"] by auto
  have "snd (symbolize_line env echo line (v, s)) =
          s\<lparr>last_known_pid := p,
            calls := calls s @ (if mut_match line then evs else []) @ (if echo then [Echo (strip line)] else [])\<rparr>"
    unfolding symbolize_line_unfold a Let_def
    by (simp add: m host_echo_def call_def)
  moreover have "\<forall>e\<in>set ((if mut_match line then evs else []) @ (if echo then [Echo (strip line)] else [])). sym_event e"
    using m(2) by auto
  ultimately show ?thesis by blast
qed

lemma symbolize_loop_ex:
  "\<exists>p evs. snd (symbolize_loop env echo fd_in (v, s)) = s\<lparr>last_known_pid := p, calls := calls s @ evs\<rparr>
      \<and> (\<forall>e\<in>set evs. sym_event e)"
  unfolding symbolize_loop_def
proof (rule fold_invariant[where I = "\<lambda>vs. \<exists>p evs. snd vs = s\<lparr>last_known_pid := p, calls := calls s @ evs\<rparr>
      \<and> (\<forall>e\<in>set evs. sym_event e)"])
  show "\<exists>p evs. snd (v, s) = s\<lparr>last_known_pid := p, calls := calls s @ evs\<rparr> \<and> (\<forall>e\<in>set evs. sym_event e)"
    by (rule exI[of _ "last_known_pid s"], rule exI[of _ "[]"]) simp
next
  fix x and a :: "symbolize_vars \<times> fuzzer"
  assume "\<exists>p evs. snd a = s\<lparr>last_known_pid := p, calls := calls s @ evs\<rparr> \<and> (\<forall>e\<in>set evs. sym_event e)"
  then obtain p evs where h: "snd a = s\<lparr>last_known_pid := p, calls := calls s @ evs\<rparr>" "\<forall>e\<in>set evs. sym_event e"
    by blast
  obtain va where a: "a = (va, s\<lparr>last_known_pid := p, calls := calls s @ evs\<rparr>)"
    using h(1) by (cases a) auto
  obtain p' evs' where h': "snd (symbolize_line env echo x a) =
      (s\<lparr>last_known_pid := p, calls := calls s @ evs\<rparr>)\<lparr>last_known_pid := p',
         calls := calls (s\<lparr>last_known_pid := p, calls := calls s @ evs\<rparr>) @ evs'\<rparr>" "\<forall>e\<in>set evs'. sym_event e"
    unfolding a using symbolize_line_ex by blast
  have "snd (symbolize_line env echo x a) = s\<lparr>last_known_pid := p', calls := calls s @ (evs @ evs')\<rparr>"
    using h'(1) by simp
  moreover have "\<forall>e\<in>set (evs @ evs'). sym_event e" using h(2) h'(2) by auto
  ultimately show "\<exists>p evs. snd (symbolize_line env echo x a) = s\<lparr>last_known_pid := p, calls := calls s @ evs\<rparr>
      \<and> (\<forall>e\<in>set evs. sym_event e)" by blast
qed

lemma symbolize_line_sym_out:
  "sym_out (fst (symbolize_line env echo line vs)) \<noteq> None
     \<longleftrightarrow> sym_out (fst vs) \<noteq> None \<or> mut_match line"
  by (simp add: symbolize_line_unfold Let_def on_pid_keeps on_mut_sym_out split: option.splits)

lemma fold_symbolize_line_sym_out:
  "sym_out (fst (fold (symbolize_line env echo) ls vs)) \<noteq> None
     \<longleftrightarrow> sym_out (fst vs) \<noteq> None \<or> (\<exists>line\<in>set ls. mut_match line)"
proof (induction ls arbitrary: vs)
  case Nil
  show ?case by simp
next
  case (Cons l ls)
  show ?case
    unfolding fold_simps Cons.IH symbolize_line_sym_out by auto
qed

lemma symbolize_line_artifacts:
  "artifacts (fst (symbolize_line env echo l vs)) =
     artifacts (fst vs) @ (case art_match l of None \<Rightarrow> [] | Some a \<Rightarrow> [a])"
  by (simp add: symbolize_line_unfold Let_def on_pid_keeps on_mut_keeps split: option.splits)

lemma fold_symbolize_line_artifacts:
  "artifacts (fst (fold (symbolize_line env echo) ls vs)) =
     artifacts (fst vs) @ List.map_filter art_match ls"
proof (induction ls arbitrary: vs)
  case Nil
  show ?case by simp
next
  case (Cons l ls)
  show ?case
    by (simp add: Cons.IH symbolize_line_artifacts split: option.splits)
qed

lemma symbolize_log_impl_calls:
  "\<exists>evs. (\<forall>e\<in>set evs. sym_event e) \<and>
     calls (snd (symbolize_log_impl env fd_in echo s)) =
       calls s @ evs @ (if artifact_refs fd_in = [] then []
                        else [NsFetch (output_dir s) (artifact_refs fd_in)])"
proof -
  let ?init = "\<lparr>pid = - 1, sym_out = None, artifacts = [], fd_out = []\<rparr>"
  obtain v1 s1 where l: "symbolize_loop env echo fd_in (?init, s) = (v1, s1)"
    by (cases "symbolize_loop env echo fd_in (?init, s)")
  obtain p evs where s1: "s1 = s\<lparr>last_known_pid := p, calls := calls s @ evs\<rparr>" "\<forall>e\<in>set evs. sym_event e"
    using symbolize_loop_ex[of env echo fd_in ?init s] l by auto
  have a: "artifacts v1 = artifact_refs fd_in"
    using fold_symbolize_line_artifacts[of env echo "takeWhile (\<lambda>line. line \<noteq> []) fd_in" "(?init, s)"] l
    by (simp add: symbolize_loop_def artifact_refs_def)
  have "calls (snd (symbolize_log_impl env fd_in echo s)) =
       calls s @ evs @ (if artifact_refs fd_in = [] then []
                        else [NsFetch (output_dir s) (artifact_refs fd_in)])"
    by (simp add: symbolize_log_impl_def l a s1 ns_fetch_def call_def Let_def)
  with s1(2) show ?thesis by blast
qed

lemma on_mut_symbolize_calls:
  assumes "n \<le> length (calls s)"
    and "sym_out v \<noteq> None \<longleftrightarrow> (\<exists>e\<in>set (drop n (calls s)). is_symbolize e)"
  shows "n \<le> length (calls (snd (on_mut env echo (v, s)))) \<and>
     (\<exists>e\<in>set (drop n (calls (snd (on_mut env echo (v, s))))). is_symbolize e)"
  using assms
  by (auto simp: on_mut_def Let_def truthy_def call_def host_echo_def
           device_guess_pid_def device_dump_log_def buildenv_symbolize_def
           split: prod.splits)

lemma symbolize_line_symbolize_calls:
  assumes "n \<le> length (calls s)"
    and "sym_out v \<noteq> None \<longleftrightarrow> (\<exists>e\<in>set (drop n (calls s)). is_symbolize e)"
  shows "n \<le> length (calls (snd (symbolize_line env echo line (v, s)))) \<and>
     (sym_out (fst (symbolize_line env echo line (v, s))) \<noteq> None
        \<longleftrightarrow> (\<exists>e\<in>set (drop n (calls (snd (symbolize_line env echo line (v, s))))). is_symbolize e))"
proof -
  obtain v1 s1 where p: "on_pid line (v, s) = (v1, s1)" by (cases "on_pid line (v, s)")
  have p1: "calls s1 = calls s" "sym_out v1 = sym_out v"
    using on_pid_keeps[of line "(v, s)"] p by simp_all
  have a1: "n \<le> length (calls s1)"
    and a2: "sym_out v1 \<noteq> None \<longleftrightarrow> (\<exists>e\<in>set (drop n (calls s1)). is_symbolize e)"
    using assms p1 by simp_all
  show ?thesis
  proof (cases "mut_match line")
    case True
    from on_mut_symbolize_calls[OF a1 a2, of env echo] on_mut_sym_out[of env echo "(v1, s1)"] True a1
    show ?thesis
      by (auto simp: symbolize_line_unfold p Let_def host_echo_def call_def split: option.splits)
  next
    case False
    with a1 a2 show ?thesis
      by (auto simp: symbolize_line_unfold p Let_def host_echo_def call_def split: option.splits)
  qed
qed

lemma symbolize_loop_symbolize_calls:
  assumes "n \<le> length (calls s)"
    and "sym_out v \<noteq> None \<longleftrightarrow> (\<exists>e\<in>set (drop n (calls s)). is_symbolize e)"
  shows "n \<le> length (calls (snd (symbolize_loop env echo fd_in (v, s)))) \<and>
     (sym_out (fst (symbolize_loop env echo fd_in (v, s))) \<noteq> None
        \<longleftrightarrow> (\<exists>e\<in>set (drop n (calls (snd (symbolize_loop env echo fd_in (v, s))))). is_symbolize e))"
  unfolding symbolize_loop_def
proof (rule fold_invariant[where I = "\<lambda>vs. n \<le> length (calls (snd vs)) \<and>
     (sym_out (fst vs) \<noteq> None \<longleftrightarrow> (\<exists>e\<in>set (drop n (calls (snd vs))). is_symbolize e))"])
  show "n \<le> length (calls (snd (v, s))) \<and>
     (sym_out (fst (v, s)) \<noteq> None \<longleftrightarrow> (\<exists>e\<in>set (drop n (calls (snd (v, s)))). is_symbolize e))"
    using assms by simp
next
  fix x and a :: "symbolize_vars \<times> fuzzer"
  assume "n \<le> length (calls (snd a)) \<and>
     (sym_out (fst a) \<noteq> None \<longleftrightarrow> (\<exists>e\<in>set (drop n (calls (snd a))). is_symbolize e))"
  then show "n \<le> length (calls (snd (symbolize_line env echo x a))) \<and>
     (sym_out (fst (symbolize_line env echo x a)) \<noteq> None
        \<longleftrightarrow> (\<exists>e\<in>set (drop n (calls (snd (symbolize_line env echo x a)))). is_symbolize e))"
    using symbolize_line_symbolize_calls[of n "snd a" "fst a" env echo x] by simp
qed

lemma symbolize_log_impl_found:
  "fst (fst (symbolize_log_impl env fd_in echo s))
     \<longleftrightarrow> (\<exists>line\<in>set (takeWhile (\<lambda>line. line \<noteq> []) fd_in). mut_match line)"
proof -
  let ?init = "\<lparr>pid = - 1, sym_out = None, artifacts = [], fd_out = []\<rparr>"
  obtain v1 s1 where l: "symbolize_loop env echo fd_in (?init, s) = (v1, s1)"
    by (cases "symbolize_loop env echo fd_in (?init, s)")
  have "sym_out v1 \<noteq> None \<longleftrightarrow> (\<exists>line\<in>set (takeWhile (\<lambda>line. line \<noteq> []) fd_in). mut_match line)"
    using fold_symbolize_line_sym_out[of env echo "takeWhile (\<lambda>line. line \<noteq> []) fd_in" "(?init, s)"] l
    by (simp add: symbolize_loop_def)
  then show ?thesis
    by (simp add: symbolize_log_impl_def l Let_def)
qed

lemma symbolize_log_impl_symbolize_calls:
  assumes "n \<le> length (calls s)" and "\<forall>e\<in>set (drop n (calls s)). \<not> is_symbolize e"
  shows "n \<le> length (calls (snd (symbolize_log_impl env fd_in echo s))) \<and>
    (fst (fst (symbolize_log_impl env fd_in echo s))
     \<longleftrightarrow> (\<exists>e\<in>set (drop n (calls (snd (symbolize_log_impl env fd_in echo s)))). is_symbolize e))"
proof -
  let ?init = "\<lparr>pid = - 1, sym_out = None, artifacts = [], fd_out = []\<rparr>"
  obtain v1 s1 where l: "symbolize_loop env echo fd_in (?init, s) = (v1, s1)"
    by (cases "symbolize_loop env echo fd_in (?init, s)")
  have "n \<le> length (calls s1) \<and> (sym_out v1 \<noteq> None \<longleftrightarrow> (\<exists>e\<in>set (drop n (calls s1)). is_symbolize e))"
    using symbolize_loop_symbolize_calls[of n s ?init env echo fd_in] assms l by simp
  then show ?thesis
    by (auto simp: symbolize_log_impl_def l ns_fetch_def call_def Let_def)
qed

lemma symbolize_log_unfold:
  "symbolize_log env fd_in job_num echo s =
     (let fn = fst (logfile env job_num s);
          s0 = call (OpenW fn) (snd (logfile env job_num s));
          r = symbolize_log_impl env fd_in echo s0;
          s1 = snd r;
          latest = path_join (output_dir s1) ''fuzz-latest.log''
      in (fst (fst r),
          s1\<lparr>files := AList.update latest (concat (snd (fst r)))
                        (AList.update fn (concat (snd (fst r))) (files s1)),
             calls := calls s1 @ [Link fn latest]\<rparr>))"
  by (simp add: symbolize_log_def Let_def call_def case_prod_beta)

lemma logfile_calls:
  "calls (snd (logfile env job_num s)) = calls s @ (if truthy (logbase s) then [] else [Now])"
  by (simp add: logfile_def Let_def call_def)

lemma logfile_output_dir: "output_dir (snd (logfile env job_num s)) = output_dir s"
  by (simp add: logfile_def Let_def call_def)

lemma sym_event_not_fetch: "sym_event e \<Longrightarrow> \<not> is_fetch e \<and> fetch_paths e = []"
  by (cases e) simp_all

lemma filter_is_fetch_sym_events: "\<forall>e\<in>set evs. sym_event e \<Longrightarrow> filter is_fetch evs = []"
  by (induction evs) (auto dest: sym_event_not_fetch)

lemma fetched_paths_sym_events: "\<forall>e\<in>set evs. sym_event e \<Longrightarrow> fetched_paths evs = []"
  by (induction evs) (auto simp: fetched_paths_def dest: sym_event_not_fetch)

lemma fetched_paths_append: "fetched_paths (xs @ ys) = fetched_paths xs @ fetched_paths ys"
  by (simp add: fetched_paths_def)

lemma fetched_paths_simps:
  "fetched_paths [] = []"
  "fetched_paths (e # evs) = fetch_paths e @ fetched_paths evs"
  by (simp_all add: fetched_paths_def)

lemma symbolize_log_new_calls:
  "\<exists>evs. (\<forall>e\<in>set evs. sym_event e) \<and>
     new_calls s (snd (symbolize_log env fd_in job_num echo s)) =
       (if truthy (logbase s) then [] else [Now]) @ [OpenW (fst (logfile env job_num s))] @ evs @
       (if artifact_refs fd_in = [] then [] else [NsFetch (output_dir s) (artifact_refs fd_in)]) @
       [Link (fst (logfile env job_num s)) (path_join (output_dir s) ''fuzz-latest.log'')]"
proof -
  let ?fn = "fst (logfile env job_num s)"
  let ?s0 = "call (OpenW ?fn) (snd (logfile env job_num s))"
  have s0: "calls ?s0 = calls s @ (if truthy (logbase s) then [] else [Now]) @ [OpenW ?fn]"
    "output_dir ?s0 = output_dir s"
    by (simp_all add: call_def logfile_calls logfile_output_dir)
  obtain evs where e: "\<forall>e\<in>set evs. sym_event e"
    "calls (snd (symbolize_log_impl env fd_in echo ?s0)) =
       calls ?s0 @ evs @ (if artifact_refs fd_in = [] then []
                        else [NsFetch (output_dir ?s0) (artifact_refs fd_in)])"
    using symbolize_log_impl_calls[of env fd_in echo ?s0] by blast
  obtain p evs' where o: "snd (symbolize_loop env echo fd_in
      (\<lparr>pid = - 1, sym_out = None, artifacts = [], fd_out = []\<rparr>, ?s0)) =
      ?s0\<lparr>last_known_pid := p, calls := calls ?s0 @ evs'\<rparr>"
    using symbolize_loop_ex by blast
  have od: "output_dir (snd (symbolize_log_impl env fd_in echo ?s0)) = output_dir s"
    using o s0(2)
    by (simp add: symbolize_log_impl_def Let_def case_prod_beta ns_fetch_def call_def)
  have "new_calls s (snd (symbolize_log env fd_in job_num echo s)) =
       (if truthy (logbase s) then [] else [Now]) @ [OpenW ?fn] @ evs @
       (if artifact_refs fd_in = [] then [] else [NsFetch (output_dir s) (artifact_refs fd_in)]) @
       [Link ?fn (path_join (output_dir s) ''fuzz-latest.log'')]"
    by (simp add: symbolize_log_unfold Let_def new_calls_def e(2) s0 od)
  with e(1) show ?thesis by blast
qed

text \<open>
  C1, as the claim states it, fails: a log that reports \<open>data/crash-X\<close> twice hands that
  path to the fetch twice.
\<close>

theorem symbolize_log_duplicate_artifact_counterexample:
  "count_list
     (fetched_paths (new_calls fuzzer0 (snd (symbolize_log env0 [crash_line, crash_line] 0 False fuzzer0))))
     ''data/crash-X'' = 2"
  by code_simp

text \<open>
  C1, amended. The artifact references of the stream are not deduplicated: when there is
  at least one, \<open>symbolize_log\<close> makes exactly one fetch call, after the stream has ended,
  and hands it every reference in stream order, a path reported twice being handed over
  twice; when there is none, it makes no fetch call.
\<close>

theorem symbolize_log_fetches_all_references:
  "filter is_fetch (new_calls s (snd (symbolize_log env fd_in job_num echo s))) =
     (if artifact_refs fd_in = [] then [] else [NsFetch (output_dir s) (artifact_refs fd_in)]) \<and>
   fetched_paths (new_calls s (snd (symbolize_log env fd_in job_num echo s))) = artifact_refs fd_in"
proof -
  obtain evs where e: "\<forall>e\<in>set evs. sym_event e"
    "new_calls s (snd (symbolize_log env fd_in job_num echo s)) =
       (if truthy (logbase s) then [] else [Now]) @ [OpenW (fst (logfile env job_num s))] @ evs @
       (if artifact_refs fd_in = [] then [] else [NsFetch (output_dir s) (artifact_refs fd_in)]) @
       [Link (fst (logfile env job_num s)) (path_join (output_dir s) ''fuzz-latest.log'')]"
    using symbolize_log_new_calls by blast
  show ?thesis
    unfolding e(2)
    by (simp add: filter_is_fetch_sym_events[OF e(1)] fetched_paths_sym_events[OF e(1)]
          fetched_paths_append fetched_paths_simps)
qed

theorem symbolize_log_fetches_all_references_witness:
  "artifact_refs [crash_line, crash_line] = [''data/crash-X'', ''data/crash-X''] \<and>
   filter is_fetch (new_calls fuzzer0 (snd (symbolize_log env0 [crash_line, crash_line] 0 False fuzzer0))) =
     [NsFetch ''out'' [''data/crash-X'', ''data/crash-X'']]"
proof -
  have a: "artifact_refs [crash_line, crash_line] = [''data/crash-X'', ''data/crash-X'']"
    by code_simp
  have o: "output_dir fuzzer0 = ''out''" by (simp add: fuzzer0_def)
  show ?thesis
    using symbolize_log_fetches_all_references[of fuzzer0 env0 "[crash_line, crash_line]" 0 False]
    by (simp add: a o)
qed

text \<open>
  C3 at a failing input: the log has two mutation-sequence lines and the symbolizer
  prints nothing for the dump. The guard \<open>if not sym\<close> then holds again at the second
  line, and the dump is fetched and symbolized a second time.
\<close>

theorem symbolize_log_empty_dump_fetched_twice:
  "filter (\<lambda>e. is_dump_log e \<or> is_symbolize e)
     (new_calls fuzzer0 (snd (symbolize_log env_empty_dump [ms_line, ms_line] 0 False fuzzer0))) =
   [DumpLog [''--pid'', ''7''], Symbolize ''raw log'',
    DumpLog [''--pid'', ''7''], Symbolize ''raw log'']"
  by code_simp

section \<open>What the symbolizer writes\<close>

lemma symbolizer_outputs_append:
  "symbolizer_outputs env h (xs @ ys) =
     symbolizer_outputs env h xs @ symbolizer_outputs env (h @ xs) ys"
  by (induction xs arbitrary: h) simp_all

lemma splice_Nil: "splice ls [] = ls"
  by (induction ls) simp_all

lemma on_mut_outputs:
  "\<exists>evs. calls (snd (on_mut env echo (v, s))) = calls s @ evs \<and>
     (truthy (sym_out v) \<longrightarrow>
        fd_out (fst (on_mut env echo (v, s))) = fd_out v \<and>
        sym_out (fst (on_mut env echo (v, s))) = sym_out v \<and>
        symbolizer_outputs env (calls s) evs = []) \<and>
     (\<not> truthy (sym_out v) \<longrightarrow>
        (\<exists>d. fd_out (fst (on_mut env echo (v, s))) = fd_out v @ [d] \<and>
             sym_out (fst (on_mut env echo (v, s))) = Some d \<and>
             symbolizer_outputs env (calls s) evs = [d]))"
  by (cases "pid v \<le> 0"; cases echo; cases "truthy (sym_out v)")
     (simp_all add: on_mut_def Let_def call_def host_echo_def
        device_guess_pid_def device_dump_log_def buildenv_symbolize_def)

lemma on_pid_outputs:
  "calls (snd (on_pid line (v, s))) = calls s"
  "fd_out (fst (on_pid line (v, s))) = fd_out v"
  "sym_out (fst (on_pid line (v, s))) = sym_out v"
  by (simp_all add: on_pid_def split: option.splits)

lemma symbolize_line_outputs:
  "\<exists>evs. calls (snd (symbolize_line env echo l (v, s))) = calls s @ evs \<and>
     (mut_match l \<and> \<not> truthy (sym_out v) \<longrightarrow>
        (\<exists>d. fd_out (fst (symbolize_line env echo l (v, s))) = fd_out v @ [d, l] \<and>
             sym_out (fst (symbolize_line env echo l (v, s))) = Some d \<and>
             symbolizer_outputs env (calls s) evs = [d])) \<and>
     (\<not> (mut_match l \<and> \<not> truthy (sym_out v)) \<longrightarrow>
        fd_out (fst (symbolize_line env echo l (v, s))) = fd_out v @ [l] \<and>
        sym_out (fst (symbolize_line env echo l (v, s))) = sym_out v \<and>
        symbolizer_outputs env (calls s) evs = [])"
proof -
  obtain v1 s1 where p: "on_pid l (v, s) = (v1, s1)" by (cases "on_pid l (v, s)")
  have p1: "calls s1 = calls s" "fd_out v1 = fd_out v" "sym_out v1 = sym_out v"
    using on_pid_outputs[of l v s] p by simp_all
  show ?thesis
  proof (cases "mut_match l")
    case False
    have "calls (snd (symbolize_line env echo l (v, s))) =
            calls s @ (if echo then [Echo (strip l)] else [])"
      "fd_out (fst (symbolize_line env echo l (v, s))) = fd_out v @ [l]"
      "sym_out (fst (symbolize_line env echo l (v, s))) = sym_out v"
      unfolding symbolize_line_unfold p Let_def using False
      by (simp_all add: p1 host_echo_def call_def split: option.splits)
    moreover have "symbolizer_outputs env (calls s) (if echo then [Echo (strip l)] else []) = []"
      by simp
    ultimately show ?thesis using False by auto
  next
    case True
    obtain v2 s2 where m: "on_mut env echo (v1, s1) = (v2, s2)" by (cases "on_mut env echo (v1, s1)")
    from on_mut_outputs[of env echo v1 s1] obtain evs where
      e: "calls s2 = calls s @ evs"
         "truthy (sym_out v) \<longrightarrow>
            fd_out v2 = fd_out v \<and> sym_out v2 = sym_out v \<and> symbolizer_outputs env (calls s) evs = []"
         "\<not> truthy (sym_out v) \<longrightarrow>
            (\<exists>d. fd_out v2 = fd_out v @ [d] \<and> sym_out v2 = Some d \<and>
                 symbolizer_outputs env (calls s) evs = [d])"
      unfolding m p1 by auto
    let ?evs = "evs @ (if echo then [Echo (strip l)] else [])"
    have c: "calls (snd (symbolize_line env echo l (v, s))) = calls s @ ?evs"
      "fd_out (fst (symbolize_line env echo l (v, s))) = fd_out v2 @ [l]"
      "sym_out (fst (symbolize_line env echo l (v, s))) = sym_out v2"
      unfolding symbolize_line_unfold p Let_def if_P[OF True] m
      by (simp_all add: e(1) host_echo_def call_def split: option.splits)
    have o: "symbolizer_outputs env (calls s) ?evs = symbolizer_outputs env (calls s) evs"
      by (simp add: symbolizer_outputs_append)
    show ?thesis
    proof (cases "truthy (sym_out v)")
      case t: True
      with e(2) c o True show ?thesis by (intro exI[of _ ?evs]) simp
    next
      case f: False
      with e(3) obtain d where "fd_out v2 = fd_out v @ [d]" "sym_out v2 = Some d"
        "symbolizer_outputs env (calls s) evs = [d]" by auto
      with c o True f show ?thesis by (intro exI[of _ ?evs]) simp
    qed
  qed
qed

lemma fold_symbolize_line_outputs:
  "\<exists>evs. calls (snd (fold (symbolize_line env echo) ls (v, s))) = calls s @ evs \<and>
     fd_out (fst (fold (symbolize_line env echo) ls (v, s))) =
       fd_out v @ splice ls (symbolizer_outputs env (calls s) evs) \<and>
     (truthy (sym_out v) \<longrightarrow> symbolizer_outputs env (calls s) evs = [])"
proof (induction ls arbitrary: v s)
  case Nil
  show ?case by (intro exI[of _ "[]"]) simp
next
  case (Cons l ls)
  obtain v1 s1 where p: "symbolize_line env echo l (v, s) = (v1, s1)"
    by (cases "symbolize_line env echo l (v, s)")
  from symbolize_line_outputs[of env echo l v s] obtain evs1 where
    a: "calls s1 = calls s @ evs1"
       "mut_match l \<and> \<not> truthy (sym_out v) \<longrightarrow>
          (\<exists>d. fd_out v1 = fd_out v @ [d, l] \<and> sym_out v1 = Some d \<and>
               symbolizer_outputs env (calls s) evs1 = [d])"
       "\<not> (mut_match l \<and> \<not> truthy (sym_out v)) \<longrightarrow>
          fd_out v1 = fd_out v @ [l] \<and> sym_out v1 = sym_out v \<and>
          symbolizer_outputs env (calls s) evs1 = []"
    unfolding p by auto
  from Cons.IH[of v1 s1] obtain evs2 where
    b: "calls (snd (fold (symbolize_line env echo) ls (v1, s1))) = calls s1 @ evs2"
       "fd_out (fst (fold (symbolize_line env echo) ls (v1, s1))) =
          fd_out v1 @ splice ls (symbolizer_outputs env (calls s1) evs2)"
       "truthy (sym_out v1) \<longrightarrow> symbolizer_outputs env (calls s1) evs2 = []"
    by blast
  let ?r = "fold (symbolize_line env echo) (l # ls) (v, s)"
  have r: "?r = fold (symbolize_line env echo) ls (v1, s1)" by (simp add: p)
  have c: "calls (snd ?r) = calls s @ (evs1 @ evs2)" unfolding r b(1) a(1) by simp
  have o: "symbolizer_outputs env (calls s) (evs1 @ evs2) =
             symbolizer_outputs env (calls s) evs1 @ symbolizer_outputs env (calls s1) evs2"
    by (simp add: symbolizer_outputs_append a(1))
  have "fd_out (fst ?r) = fd_out v @ splice (l # ls) (symbolizer_outputs env (calls s) (evs1 @ evs2)) \<and>
        (truthy (sym_out v) \<longrightarrow> symbolizer_outputs env (calls s) (evs1 @ evs2) = [])"
  proof (cases "mut_match l \<and> \<not> truthy (sym_out v)")
    case True
    with a(2) obtain d where d: "fd_out v1 = fd_out v @ [d, l]" "sym_out v1 = Some d"
      "symbolizer_outputs env (calls s) evs1 = [d]" by auto
    show ?thesis unfolding r b(2) o d using True by simp
  next
    case False
    with a(3) have d: "fd_out v1 = fd_out v @ [l]" "sym_out v1 = sym_out v"
      "symbolizer_outputs env (calls s) evs1 = []" by auto
    show ?thesis
    proof (cases "mut_match l")
      case m: True
      with False have t: "truthy (sym_out v)" by simp
      with b(3) d(2) have e: "symbolizer_outputs env (calls s1) evs2 = []" by simp
      show ?thesis unfolding r b(2) o d e using m t by (simp add: splice_Nil)
    next
      case m: False
      show ?thesis unfolding r b(2) o d using m b(3) d(2) by simp
    qed
  qed
  with c show ?case by blast
qed

lemma symbolize_log_impl_written:
  "\<exists>evs. calls (snd (symbolize_log_impl env fd_in echo s)) = calls s @ evs \<and>
     snd (fst (symbolize_log_impl env fd_in echo s)) =
       splice (takeWhile (\<lambda>line. line \<noteq> []) fd_in) (symbolizer_outputs env (calls s) evs)"
proof -
  let ?init = "\<lparr>pid = - 1, sym_out = None, artifacts = [], fd_out = []\<rparr>"
  obtain v1 s1 where l: "symbolize_loop env echo fd_in (?init, s) = (v1, s1)"
    by (cases "symbolize_loop env echo fd_in (?init, s)")
  from fold_symbolize_line_outputs[of env echo "takeWhile (\<lambda>line. line \<noteq> []) fd_in" ?init s]
  obtain evs where e: "calls s1 = calls s @ evs"
    "fd_out v1 = splice (takeWhile (\<lambda>line. line \<noteq> []) fd_in) (symbolizer_outputs env (calls s) evs)"
    using l unfolding symbolize_loop_def by auto
  let ?evs = "evs @ (if artifacts v1 \<noteq> [] then [NsFetch (output_dir s1) (artifacts v1)] else [])"
  have "calls (snd (symbolize_log_impl env fd_in echo s)) = calls s @ ?evs"
    unfolding symbolize_log_impl_def l by (simp add: Let_def ns_fetch_def call_def e(1))
  moreover have "snd (fst (symbolize_log_impl env fd_in echo s)) =
       splice (takeWhile (\<lambda>line. line \<noteq> []) fd_in) (symbolizer_outputs env (calls s) ?evs)"
    unfolding symbolize_log_impl_def l by (simp add: Let_def e(2) symbolizer_outputs_append)
  ultimately show ?thesis by blast
qed

lemma symbolize_log_written:
  "map_of (files (snd (symbolize_log env fd_in job_num echo s))) (fst (logfile env job_num s)) =
     Some (concat (splice (takeWhile (\<lambda>line. line \<noteq> []) fd_in)
             (symbolizer_outputs env (calls s)
                (new_calls s (snd (symbolize_log env fd_in job_num echo s))))))"
proof -
  let ?fn = "fst (logfile env job_num s)"
  let ?pre = "(if truthy (logbase s) then [] else [Now]) @ [OpenW ?fn]"
  let ?s0 = "call (OpenW ?fn) (snd (logfile env job_num s))"
  have s0: "calls ?s0 = calls s @ ?pre"
    by (simp add: call_def logfile_calls)
  from symbolize_log_impl_written[of env fd_in echo ?s0] obtain evs where
    e: "calls (snd (symbolize_log_impl env fd_in echo ?s0)) = calls ?s0 @ evs"
       "snd (fst (symbolize_log_impl env fd_in echo ?s0)) =
          splice (takeWhile (\<lambda>line. line \<noteq> []) fd_in) (symbolizer_outputs env (calls ?s0) evs)"
    by blast
  let ?latest = "path_join (output_dir (snd (symbolize_log_impl env fd_in echo ?s0))) ''fuzz-latest.log''"
  have n: "new_calls s (snd (symbolize_log env fd_in job_num echo s)) = ?pre @ evs @ [Link ?fn ?latest]"
    unfolding symbolize_log_unfold Let_def new_calls_def by (simp add: e(1) s0)
  have o: "symbolizer_outputs env (calls s) (?pre @ evs @ [Link ?fn ?latest]) =
           symbolizer_outputs env (calls ?s0) evs"
    unfolding s0 by (simp add: symbolizer_outputs_append)
  have "map_of (files (snd (symbolize_log env fd_in job_num echo s))) ?fn =
          Some (concat (snd (fst (symbolize_log_impl env fd_in echo ?s0))))"
    unfolding symbolize_log_unfold Let_def by (simp add: update_conv')
  then show ?thesis unfolding n o e(2) .
qed

lemma symbolizer_outputs_nonempty:
  "symbolizer_outputs env h evs \<noteq> [] \<longleftrightarrow> (\<exists>e\<in>set evs. is_symbolize e)"
  by (induction evs arbitrary: h) auto

lemma symbolize_log_no_exit_code:
  "e \<in> set (new_calls s (snd (symbolize_log env fd_in job_num echo s))) \<Longrightarrow> e \<noteq> Wait \<and> e \<noteq> Poll"
proof -
  assume a: "e \<in> set (new_calls s (snd (symbolize_log env fd_in job_num echo s)))"
  obtain evs where e: "\<forall>e\<in>set evs. sym_event e"
    "new_calls s (snd (symbolize_log env fd_in job_num echo s)) =
       (if truthy (logbase s) then [] else [Now]) @ [OpenW (fst (logfile env job_num s))] @ evs @
       (if artifact_refs fd_in = [] then [] else [NsFetch (output_dir s) (artifact_refs fd_in)]) @
       [Link (fst (logfile env job_num s)) (path_join (output_dir s) ''fuzz-latest.log'')]"
    using symbolize_log_new_calls by blast
  from a e show ?thesis by (auto split: if_splits)
qed

text \<open>
  C7. \<open>symbolize_log\<close> returns true exactly when some line of the stream (up to the end
  of input) matches the mutation-sequence pattern, and exactly when the symbolizer printed
  a dump that was spliced: the log written is the lines of the stream with each output of
  the symbolizer written immediately before the marker line that asked for it. The process
  is neither waited for nor polled, so no exit code enters the result.
\<close>

theorem symbolize_log_found_iff_marker:
  "(fst (symbolize_log env fd_in job_num echo s)
      \<longleftrightarrow> (\<exists>line\<in>set (takeWhile (\<lambda>line. line \<noteq> []) fd_in). mut_match line)) \<and>
   (fst (symbolize_log env fd_in job_num echo s)
      \<longleftrightarrow> symbolizer_outputs env (calls s)
            (new_calls s (snd (symbolize_log env fd_in job_num echo s))) \<noteq> []) \<and>
   map_of (files (snd (symbolize_log env fd_in job_num echo s))) (fst (logfile env job_num s)) =
     Some (concat (splice (takeWhile (\<lambda>line. line \<noteq> []) fd_in)
             (symbolizer_outputs env (calls s)
                (new_calls s (snd (symbolize_log env fd_in job_num echo s)))))) \<and>
   (\<forall>e\<in>set (new_calls s (snd (symbolize_log env fd_in job_num echo s))). e \<noteq> Wait \<and> e \<noteq> Poll)"
proof -
  have c1: "fst (symbolize_log env fd_in job_num echo s)
      \<longleftrightarrow> (\<exists>line\<in>set (takeWhile (\<lambda>line. line \<noteq> []) fd_in). mut_match line)"
    by (simp add: symbolize_log_unfold Let_def symbolize_log_impl_found)
  let ?fn = "fst (logfile env job_num s)"
  let ?s0 = "call (OpenW ?fn) (snd (logfile env job_num s))"
  let ?n = "length (calls s)"
  have a: "?n \<le> length (calls ?s0)" by (simp add: call_def logfile_calls)
  have b: "\<forall>e\<in>set (drop ?n (calls ?s0)). \<not> is_symbolize e"
    by (simp add: call_def logfile_calls)
  have "fst (symbolize_log env fd_in job_num echo s)
      \<longleftrightarrow> (\<exists>e\<in>set (new_calls s (snd (symbolize_log env fd_in job_num echo s))). is_symbolize e)"
    using symbolize_log_impl_symbolize_calls[OF a b, of env fd_in echo]
    by (auto simp: symbolize_log_unfold Let_def new_calls_def)
  then have c2: "fst (symbolize_log env fd_in job_num echo s)
      \<longleftrightarrow> symbolizer_outputs env (calls s)
            (new_calls s (snd (symbolize_log env fd_in job_num echo s))) \<noteq> []"
    by (simp only: symbolizer_outputs_nonempty)
  have c3: "map_of (files (snd (symbolize_log env fd_in job_num echo s))) (fst (logfile env job_num s)) =
     Some (concat (splice (takeWhile (\<lambda>line. line \<noteq> []) fd_in)
             (symbolizer_outputs env (calls s)
                (new_calls s (snd (symbolize_log env fd_in job_num echo s))))))"
    by (rule symbolize_log_written)
  have c4: "\<forall>e\<in>set (new_calls s (snd (symbolize_log env fd_in job_num echo s))). e \<noteq> Wait \<and> e \<noteq> Poll"
    using symbolize_log_no_exit_code by blast
  from c1 c2 c3 c4 show ?thesis by (intro conjI)
qed

theorem symbolize_log_found_iff_marker_witness:
  "fst (symbolize_log env0 [crash_line, ms_line] 0 False fuzzer0) \<and>
   (\<exists>line\<in>set (takeWhile (\<lambda>line. line \<noteq> []) [crash_line, ms_line]). mut_match line) \<and>
   map_of (files (snd (symbolize_log env0 [crash_line, ms_line] 0 False fuzzer0)))
     ''out/fuzz-2021-01-01-0000-0.log'' =
     Some (crash_line @ ''[[symbolizer output]]'' @ ms_line)"
proof -
  have n: "new_calls fuzzer0 (snd (symbolize_log env0 [crash_line, ms_line] 0 False fuzzer0)) =
      [Now, OpenW ''out/fuzz-2021-01-01-0000-0.log'', GuessPid, DumpLog [''--pid'', ''7''],
       Symbolize ''raw log'', NsFetch ''out'' [''data/crash-X''],
       Link ''out/fuzz-2021-01-01-0000-0.log'' ''out/fuzz-latest.log'']"
    by code_simp
  have f: "fst (logfile env0 0 fuzzer0) = ''out/fuzz-2021-01-01-0000-0.log''"
    by code_simp
  have m: "mut_match ms_line" "\<not> mut_match crash_line" "ms_line \<noteq> []" "crash_line \<noteq> []"
    by code_simp+
  have o: "symbolize env0 h = ''[[symbolizer output]]''" for h by (simp add: env0_def)
  from symbolize_log_found_iff_marker[of env0 "[crash_line, ms_line]" 0 False fuzzer0]
  show ?thesis
    unfolding n f by (simp add: m o)
qed

section \<open>Liveness checks before stopping and before reproducing\<close>

lemma is_running_refresh:
  "is_running env True s =
     (executable_url s \<in> set (cs_info env (calls s @ [CsInfo])),
      s\<lparr>urls := Some (cs_info env (calls s @ [CsInfo])), calls := calls s @ [CsInfo]\<rparr>)"
  by (simp add: is_running_def v1_component_is_running_def call_def Let_def)

lemma is_running_cached:
  "urls s = Some us \<Longrightarrow> is_running env False s = (executable_url s \<in> set us, s)"
  by (simp add: is_running_def v1_component_is_running_def)

lemma is_running_first:
  "urls s = None \<Longrightarrow> is_running env False s = is_running env True s"
  by (simp add: is_running_def v1_component_is_running_def)

lemma require_stopped_unfold:
  "require_stopped env s =
     (if executable_url s \<in> set (cs_info env (calls s @ [CsInfo]))
      then Inl (HostError [str_fuzzer s @ '' is running and must be stopped first.''])
      else Inr (),
      s\<lparr>urls := Some (cs_info env (calls s @ [CsInfo])), calls := calls s @ [CsInfo]\<rparr>)"
  by (simp add: require_stopped_def is_running_refresh str_fuzzer_def)

text \<open>
  C2, as the claim states it, fails for \<open>stop\<close>: with a cached result that says
  ``running'' and a device on which the process has stopped, \<open>stop\<close> makes no liveness
  query at all and issues the kill command.
\<close>

theorem stop_uses_cached_liveness_counterexample:
  "new_calls fuzzer_stale (snd (stop env0 fuzzer_stale)) = [Ssh [''killall'', ''fake-target1.cmx'']]
   \<and> executable_url fuzzer_stale \<notin> set (cs_info env0 (calls fuzzer_stale @ [CsInfo]))"
  by code_simp

text \<open>
  C2, amended. The reproduce preflight (\<open>require_stopped\<close>) always queries the device
  afresh and decides on the answer. \<open>stop\<close> does not force a refresh: it queries the
  device only when no liveness result is cached, otherwise it takes the cached one; it
  issues the kill-by-name command if and only if the result it took says the process is
  running.
\<close>

theorem stop_and_preflight_liveness:
  "new_calls s (snd (require_stopped env s)) = [CsInfo] \<and>
   (fst (require_stopped env s) = Inr ()
      \<longleftrightarrow> executable_url s \<notin> set (cs_info env (calls s @ [CsInfo]))) \<and>
   (CsInfo \<in> set (new_calls s (snd (stop env s))) \<longleftrightarrow> urls s = None) \<and>
   (Ssh [''killall'', executable s @ ''.cmx''] \<in> set (new_calls s (snd (stop env s)))
      \<longleftrightarrow> executable_url s \<in> set (case urls s of None \<Rightarrow> cs_info env (calls s @ [CsInfo])
                                     | Some us \<Rightarrow> us))"
proof (intro conjI)
  show "new_calls s (snd (require_stopped env s)) = [CsInfo]"
    by (simp add: require_stopped_unfold new_calls_def)
  show "fst (require_stopped env s) = Inr ()
      \<longleftrightarrow> executable_url s \<notin> set (cs_info env (calls s @ [CsInfo]))"
    by (simp add: require_stopped_unfold)
  show "CsInfo \<in> set (new_calls s (snd (stop env s))) \<longleftrightarrow> urls s = None"
  proof (cases "urls s")
    case None
    then show ?thesis
      by (simp add: stop_def is_running_first is_running_refresh ssh_check_call_def
            call_def Let_def new_calls_def)
  next
    case (Some us)
    then show ?thesis
      by (simp add: stop_def is_running_cached ssh_check_call_def call_def Let_def new_calls_def)
  qed
  show "Ssh [''killall'', executable s @ ''.cmx''] \<in> set (new_calls s (snd (stop env s)))
      \<longleftrightarrow> executable_url s \<in> set (case urls s of None \<Rightarrow> cs_info env (calls s @ [CsInfo])
                                     | Some us \<Rightarrow> us)"
  proof (cases "urls s")
    case None
    then show ?thesis
      by (simp add: stop_def is_running_first is_running_refresh ssh_check_call_def
            call_def Let_def new_calls_def)
  next
    case (Some us)
    then show ?thesis
      by (simp add: stop_def is_running_cached ssh_check_call_def call_def Let_def new_calls_def)
  qed
qed

theorem stop_and_preflight_liveness_witness:
  "urls fuzzer0 = None \<and> CsInfo \<in> set (new_calls fuzzer0 (snd (stop env0 fuzzer0))) \<and>
   fst (require_stopped env0 fuzzer0) = Inr () \<and>
   Ssh [''killall'', executable fuzzer0 @ ''.cmx''] \<notin> set (new_calls fuzzer0 (snd (stop env0 fuzzer0)))"
  using stop_and_preflight_liveness[of fuzzer0 env0]
  by (simp add: fuzzer0_def env0_def)

section \<open>The package status query\<close>

text \<open>
  C8. When the package status query is made (the device is reachable, no package path is
  known and the package is not in the base image) and the tool keeps to its exit codes,
  return code 2 coming with an output that reports no package on disk (the comment in
  \<open>is_resolved\<close>: ``pkg in tuf repo but not on disk''): return code 2 gives false
  without an error, nothing but the record of calls being changed; every return code other
  than 0 and 2 raises \<open>CalledProcessError\<close> with the return code, the command line
  \<open>pkgctl pkg-status <package_url>\<close> and the output; return code 0 gives what the
  output says, the path being recorded when it reports the package on disk.
\<close>

theorem is_resolved_return_codes:
  assumes "reachable env" and "\<not> truthy (package_path s)"
    and "\<not> device_isfile env (calls s @ [IsFile (base_abspath env (''meta/'' @ executable s @ ''.cmx''))])"
    and "h = calls s @ [IsFile (base_abspath env (''meta/'' @ executable s @ ''.cmx'')),
                       Ssh [''pkgctl'', ''pkg-status'', package_url s]]"
    and "ssh_returncode env h = 2 \<Longrightarrow> pkg_path_match (ssh_stdout env h) = None"
  shows "(ssh_returncode env h = 2 \<longrightarrow> is_resolved env s = (Inr False, s\<lparr>calls := h\<rparr>)) \<and>
         (ssh_returncode env h \<noteq> 0 \<and> ssh_returncode env h \<noteq> 2 \<longrightarrow>
            is_resolved env s =
              (Inl (CalledProcessError (ssh_returncode env h)
                      (''pkgctl pkg-status '' @ package_url s) (ssh_stdout env h)),
               s\<lparr>calls := h\<rparr>)) \<and>
         (ssh_returncode env h = 0 \<longrightarrow>
            is_resolved env s =
              (case pkg_path_match (ssh_stdout env h) of
                 None \<Rightarrow> (Inr False, s\<lparr>calls := h\<rparr>)
               | Some path \<Rightarrow> (Inr True, s\<lparr>package_path := Some path, calls := h\<rparr>)))"
  using assms
  by (auto simp: is_resolved_def call_def Let_def split: option.splits)

theorem is_resolved_return_codes_witness:
  "reachable env_status2_no \<and> \<not> truthy (package_path fuzzer0) \<and>
   ssh_returncode env_status2_no
     [IsFile (base_abspath env_status2_no (''meta/'' @ executable fuzzer0 @ ''.cmx'')),
      Ssh [''pkgctl'', ''pkg-status'', package_url fuzzer0]] = 2 \<and>
   pkg_path_match (ssh_stdout env_status2_no
     [IsFile (base_abspath env_status2_no (''meta/'' @ executable fuzzer0 @ ''.cmx'')),
      Ssh [''pkgctl'', ''pkg-status'', package_url fuzzer0]]) = None \<and>
   is_resolved env_status2_no fuzzer0 =
     (Inr False,
      fuzzer0\<lparr>calls := [IsFile ''/pkgfs/packages/fake-package1/0/meta/fake-target1.cmx'',
                         Ssh [''pkgctl'', ''pkg-status'', ''fuchsia-pkg://fuchsia.com/fake-package1'']]\<rparr>)"
proof -
  have a: "reachable env_status2_no" by (simp add: env_status2_no_def env0_def)
  have b: "\<not> truthy (package_path fuzzer0)" by (simp add: fuzzer0_def truthy_def)
  have c: "\<not> device_isfile env_status2_no
     (calls fuzzer0 @ [IsFile (base_abspath env_status2_no (''meta/'' @ executable fuzzer0 @ ''.cmx''))])"
    by (simp add: env_status2_no_def env0_def)
  have d: "pkg_path_match ''Package on disk: no'' = None" by code_simp
  have e: "ssh_stdout env_status2_no h = ''Package on disk: no''"
    "ssh_returncode env_status2_no h = 2" for h
    by (simp_all add: env_status2_no_def env0_def)
  have f: "pkg_path_match (ssh_stdout env_status2_no h) = None" for h
    by (simp add: e d)
  have g: "calls fuzzer0 = []" "executable fuzzer0 = ''fake-target1''"
    "package_url fuzzer0 = ''fuchsia-pkg://fuchsia.com/fake-package1''"
    "base_abspath env_status2_no p = ''/pkgfs/packages/fake-package1/0/'' @ p" for p
    by (simp_all add: fuzzer0_def env_status2_no_def env0_def)
  from is_resolved_return_codes[OF a b c refl f]
  have "is_resolved env_status2_no fuzzer0 =
     (Inr False,
      fuzzer0\<lparr>calls := calls fuzzer0 @ [IsFile (base_abspath env_status2_no (''meta/'' @ executable fuzzer0 @ ''.cmx'')),
                       Ssh [''pkgctl'', ''pkg-status'', package_url fuzzer0]]\<rparr>)"
    by (simp add: e)
  then show ?thesis using a b by (simp add: e f g)
qed

section \<open>Launching\<close>

lemma ns_ls_unfold:
  "ns_ls env path s =
     (remote_ls env (calls s @ [NsLs path]) path, s\<lparr>calls := calls s @ [NsLs path]\<rparr>)"
  by (simp add: ns_ls_def call_def Let_def)

lemma poll_rounds_Suc:
  "poll_rounds (Suc k) = [Poll, NsLs (ns_data LOG_PATTERN), Sleep 500] @ poll_rounds k"
  by (simp add: poll_rounds_def)

lemma launch_wait_exit:
  "proc_poll env (calls s @ [Poll]) \<noteq> None \<Longrightarrow>
     launch_wait env logs s = Some (s\<lparr>calls := calls s @ [Poll]\<rparr>)"
  by (subst launch_wait.simps) (auto simp add: call_def)

lemma launch_wait_round:
  "proc_poll env (calls s @ [Poll]) = None \<Longrightarrow>
   remote_ls env (calls s @ [Poll, NsLs logs]) logs = [] \<Longrightarrow>
     launch_wait env logs s =
       launch_wait env logs (s\<lparr>calls := calls s @ [Poll, NsLs logs, Sleep 500]\<rparr>)"
  by (subst launch_wait.simps) (simp add: call_def ns_ls_unfold host_sleep_def)

lemma launch_wait_rounds:
  assumes "\<forall>k<n. proc_poll env (calls s @ poll_rounds k @ [Poll]) = None \<and>
             remote_ls env (calls s @ poll_rounds k @ [Poll, NsLs (ns_data LOG_PATTERN)])
               (ns_data LOG_PATTERN) = []"
    and "proc_poll env (calls s @ poll_rounds n @ [Poll]) \<noteq> None"
  shows "launch_wait env (ns_data LOG_PATTERN) s =
           Some (s\<lparr>calls := calls s @ poll_rounds n @ [Poll]\<rparr>)"
  using assms
proof (induction n arbitrary: s)
  case 0
  then show ?case by (simp add: launch_wait_exit poll_rounds_def)
next
  case (Suc n)
  let ?s1 = "s\<lparr>calls := calls s @ [Poll, NsLs (ns_data LOG_PATTERN), Sleep 500]\<rparr>"
  have first: "proc_poll env (calls s @ [Poll]) = None"
    "remote_ls env (calls s @ [Poll, NsLs (ns_data LOG_PATTERN)]) (ns_data LOG_PATTERN) = []"
    using Suc.prems(1)[rule_format, of 0] by (simp_all add: poll_rounds_def)
  have rest: "\<forall>k<n. proc_poll env (calls ?s1 @ poll_rounds k @ [Poll]) = None \<and>
             remote_ls env (calls ?s1 @ poll_rounds k @ [Poll, NsLs (ns_data LOG_PATTERN)])
               (ns_data LOG_PATTERN) = []"
  proof (intro allI impI)
    fix k assume "k < n"
    then have "Suc k < Suc n" by simp
    from Suc.prems(1)[rule_format, OF this] show
      "proc_poll env (calls ?s1 @ poll_rounds k @ [Poll]) = None \<and>
             remote_ls env (calls ?s1 @ poll_rounds k @ [Poll, NsLs (ns_data LOG_PATTERN)])
               (ns_data LOG_PATTERN) = []"
      by (simp add: poll_rounds_Suc)
  qed
  have last: "proc_poll env (calls ?s1 @ poll_rounds n @ [Poll]) \<noteq> None"
    using Suc.prems(2) by (simp add: poll_rounds_Suc)
  have "launch_wait env (ns_data LOG_PATTERN) s = launch_wait env (ns_data LOG_PATTERN) ?s1"
    using launch_wait_round[OF first] .
  also have "\<dots> = Some (?s1\<lparr>calls := calls ?s1 @ poll_rounds n @ [Poll]\<rparr>)"
    using Suc.IH[OF rest last] .
  finally show ?case by (simp add: poll_rounds_Suc)
qed

lemma launch_popen_keeps:
  "foreground (launch_popen s) = foreground s"
  "package (launch_popen s) = package s"
  "executable (launch_popen s) = executable s"
  by (simp_all add: launch_popen_def call_def Let_def)



section \<open>The guard of \<open>start\<close> and \<open>repro\<close>\<close>

lemma prefix_trans: "prefix a b \<Longrightarrow> prefix b c \<Longrightarrow> prefix a (c :: 'a list)"
  by (rule prefix_order.trans)

lemma prefix_snoc2D: "prefix (xs @ [a, b]) ys \<Longrightarrow> prefix (xs @ [a]) ys"
  using append_prefixD[of "xs @ [a]" "[b]" ys] by simp

lemma launch_wait_extends:
  assumes "launch_wait env logs s = Some s'"
  shows "prefix (calls s) (calls s')"
proof -
  have step: "prefix (calls s) (calls s')"
    if ih: "\<And>env logs s y. f env logs s = Some y \<Longrightarrow> prefix (calls s) (calls y)"
    and body: "(if proc_poll env (calls (call Poll s)) = None
      then (if fst (ns_ls env logs (call Poll s)) = []
            then f env logs (host_sleep 500 (snd (ns_ls env logs (call Poll s))))
            else Some (snd (ns_ls env logs (call Poll s))))
      else Some (call Poll s)) = Some s'"
    for f :: "env \<Rightarrow> string \<Rightarrow> fuzzer \<Rightarrow> fuzzer option" and env logs s s'
  proof (cases "proc_poll env (calls (call Poll s)) = None")
    case False
    with body show ?thesis by (auto simp: call_def)
  next
    case True
    show ?thesis
    proof (cases "fst (ns_ls env logs (call Poll s)) = []")
      case False
      with True body show ?thesis by (auto simp: call_def ns_ls_unfold)
    next
      case empty: True
      with True body have
        "f env logs (host_sleep 500 (snd (ns_ls env logs (call Poll s)))) = Some s'"
        by simp
      from ih[OF this]
      have "prefix (calls s @ [Poll, NsLs logs, Sleep 500]) (calls s')"
        by (simp add: call_def ns_ls_unfold host_sleep_def)
      then show ?thesis by (rule append_prefixD)
    qed
  qed
  show ?thesis
    by (rule launch_wait.raw_induct[where P = "\<lambda>env logs s s'. prefix (calls s) (calls s')",
          OF step assms])
qed

lemma launch_popen_calls:
  "calls (launch_popen s) =
     calls s @ [Mkdir (output_dir s), Ssh (fuzz_cmd (s\<lparr>options := launch_options s\<rparr>))]"
  by (simp add: launch_popen_def call_def Let_def)

lemma launch_extends:
  assumes "launch env s = Some (r, s')"
  shows "prefix (calls s) (calls s')"
proof (cases "foreground (launch_popen s)")
  case True
  with assms show ?thesis by (auto simp: launch_def Let_def launch_popen_calls)
next
  case False
  with assms obtain s4 where w: "launch_wait env (ns_data LOG_PATTERN) (launch_popen s) = Some s4"
    and r: "prefix (calls s4) (calls s')"
    by (auto simp: launch_def Let_def ns_ls_unfold split: option.splits if_splits)
  from launch_wait_extends[OF w] have "prefix (calls (launch_popen s)) (calls s4)" .
  then have "prefix (calls s) (calls s4)"
    unfolding launch_popen_calls by (rule append_prefixD)
  then show ?thesis using r by (rule prefix_trans)
qed

lemma symbolize_log_extends:
  "prefix (calls s) (calls (snd (symbolize_log env fd_in job_num echo s)))"
proof -
  obtain evs where "calls (snd (symbolize_log_impl env fd_in echo
      (call (OpenW (fst (logfile env job_num s))) (snd (logfile env job_num s))))) =
       calls (call (OpenW (fst (logfile env job_num s))) (snd (logfile env job_num s))) @ evs"
    using symbolize_log_impl_calls by blast
  then show ?thesis
    by (simp add: symbolize_log_unfold Let_def call_def logfile_calls)
qed

lemma start_foreground_extends: "prefix (calls s) (calls (start_foreground env s))"
  using symbolize_log_extends[of s env "proc_stderr env (calls s)" 0 True]
  by (simp add: start_foreground_def call_def)

lemma repro_after_wait_new_calls:
  "calls (repro_after_wait env returncode s) =
     calls s @
     (if returncode = 0 then []
      else (let guess = (if last_known_pid s \<le> 0 then [GuessPid] else []);
                pid = (if last_known_pid s \<le> 0 then guess_pid env (calls s @ [GuessPid])
                       else last_known_pid s);
                dump = DumpLog [''--pid'', str_int pid];
                raw = dump_log env (calls s @ guess @ [dump]);
                sm = symbolize env (calls s @ guess @ [dump, Symbolize raw])
            in guess @ [dump, Symbolize raw, Echo (strip sm)]))"
  by (simp add: repro_after_wait_def Let_def device_guess_pid_def device_dump_log_def
        buildenv_symbolize_def host_echo_def call_def)

lemma start_running:
  assumes "executable_url s \<in> set (cs_info env (calls s @ [CsInfo]))"
  shows "start env s =
     Some (Inl (HostError [str_fuzzer s @ '' is running and must be stopped first.'']),
           s\<lparr>urls := Some (cs_info env (calls s @ [CsInfo])), calls := calls s @ [CsInfo]\<rparr>)"
  using assms by (simp add: start_def require_stopped_unfold)

lemma repro_running:
  assumes "executable_url s \<in> set (cs_info env (calls s @ [CsInfo]))"
    and "libfuzzer_inputs s \<noteq> []"
  shows "repro env s =
     Some (Inl (HostError [str_fuzzer s @ '' is running and must be stopped first.'']),
           s\<lparr>urls := Some (cs_info env (calls s @ [CsInfo])), calls := calls s @ [CsInfo]\<rparr>)"
  using assms by (simp add: repro_def require_stopped_unfold)

lemma start_refreshes_first:
  assumes "start env s = Some (r, s')"
  shows "prefix (calls s @ [CsInfo]) (calls s')"
proof (cases "executable_url s \<in> set (cs_info env (calls s @ [CsInfo]))")
  case True
  from start_running[OF True] assms show ?thesis by auto
next
  case False
  let ?s1 = "s\<lparr>urls := Some (cs_info env (calls s @ [CsInfo])), calls := calls s @ [CsInfo]\<rparr>"
  let ?s2 = "(case dictionary_nspath ?s1 of None \<Rightarrow> ?s1
             | Some d \<Rightarrow> if d \<noteq> [] then ?s1\<lparr>options := AList.update ''dict'' d (options ?s1)\<rparr>
                         else ?s1)"
  let ?s3 = "ns_remove (ns_data LOG_PATTERN) (?s2\<lparr>libfuzzer_inputs := corpus_nspaths ?s2\<rparr>)"
  have c3: "calls ?s3 = calls s @ [CsInfo, NsRemove (ns_data LOG_PATTERN)]"
    by (simp add: ns_remove_def call_def split: option.splits)
  from assms False obtain r4 s4 where l: "launch env ?s3 = Some (r4, s4)"
    and f: "s' = s4 \<or> s' = start_foreground env s4"
    by (auto simp: start_def require_stopped_unfold Let_def split: option.splits sum.splits)
  from launch_extends[OF l] have p4: "prefix (calls s @ [CsInfo]) (calls s4)"
    unfolding c3 by (rule prefix_snoc2D)
  from f show ?thesis
  proof
    assume "s' = s4" with p4 show ?thesis by simp
  next
    assume "s' = start_foreground env s4"
    with prefix_trans[OF p4 start_foreground_extends[of s4 env]] show ?thesis by simp
  qed
qed

lemma repro_refreshes_first:
  assumes "repro env s = Some (r, s')" and "libfuzzer_inputs s \<noteq> []"
  shows "prefix (calls s @ [CsInfo]) (calls s')"
proof (cases "executable_url s \<in> set (cs_info env (calls s @ [CsInfo]))")
  case True
  from repro_running[OF True assms(2)] assms(1) show ?thesis by auto
next
  case False
  let ?s1 = "s\<lparr>urls := Some (cs_info env (calls s @ [CsInfo])), calls := calls s @ [CsInfo]\<rparr>"
  let ?s2 = "call (NsStore (ns_data []) (libfuzzer_inputs ?s1)) ?s1"
  have c2: "calls ?s2 = calls s @ [CsInfo, NsStore (ns_data []) (libfuzzer_inputs s)]"
    by (simp add: call_def)
  show ?thesis
  proof (cases "store_result env (calls ?s2)")
    case (Inl e)
    with assms False have "s' = ?s2"
      by (auto simp: repro_def require_stopped_unfold Let_def)
    then show ?thesis by (simp add: call_def)
  next
    case (Inr paths)
    with assms False obtain r4 s4 where
      l: "launch env (?s2\<lparr>libfuzzer_inputs := paths, foreground := True\<rparr>) = Some (r4, s4)"
      and f: "s' = s4 \<or> s' = repro_after_wait env
                (proc_wait env (calls (call Wait (snd (symbolize_log env (proc_stderr env (calls s4)) 0 True s4)))))
                (call Wait (snd (symbolize_log env (proc_stderr env (calls s4)) 0 True s4)))"
      by (auto simp: repro_def require_stopped_unfold Let_def split: option.splits sum.splits)
    from launch_extends[OF l] have p4: "prefix (calls s @ [CsInfo]) (calls s4)"
      by (simp add: call_def) (rule prefix_snoc2D)
    have e: "prefix (calls s4) (calls (repro_after_wait env rc
                (call Wait (snd (symbolize_log env (proc_stderr env (calls s4)) 0 True s4)))))" for rc
      using symbolize_log_extends[of s4 env "proc_stderr env (calls s4)" 0 True]
      by (simp add: repro_after_wait_new_calls call_def)
    from f show ?thesis
    proof
      assume "s' = s4" with p4 show ?thesis by simp
    next
      assume s': "s' = repro_after_wait env
                (proc_wait env (calls (call Wait (snd (symbolize_log env (proc_stderr env (calls s4)) 0 True s4)))))
                (call Wait (snd (symbolize_log env (proc_stderr env (calls s4)) 0 True s4)))"
      show ?thesis unfolding s' using p4 e by (rule prefix_trans)
    qed
  qed
qed

text \<open>
  C9. Whenever \<open>start\<close> returns, and whenever \<open>repro\<close> returns after having been given
  units, its first call is the forced liveness query. If that query reports the target's
  component as running, the operation fails with
  \<open><package>/<executable> is running and must be stopped first.\<close> and the query is the
  only call made: nothing is launched.
\<close>

theorem start_and_repro_require_stopped:
  "(executable_url s \<in> set (cs_info env (calls s @ [CsInfo])) \<longrightarrow>
      (\<exists>s'. start env s =
               Some (Inl (HostError [package s @ ''/'' @ executable s @
                                     '' is running and must be stopped first.'']), s')
           \<and> new_calls s s' = [CsInfo])) \<and>
   (executable_url s \<in> set (cs_info env (calls s @ [CsInfo])) \<and> libfuzzer_inputs s \<noteq> [] \<longrightarrow>
      (\<exists>s'. repro env s =
               Some (Inl (HostError [package s @ ''/'' @ executable s @
                                     '' is running and must be stopped first.'']), s')
           \<and> new_calls s s' = [CsInfo])) \<and>
   (\<forall>r s'. start env s = Some (r, s') \<longrightarrow> prefix (calls s @ [CsInfo]) (calls s')) \<and>
   (\<forall>r s'. repro env s = Some (r, s') \<and> libfuzzer_inputs s \<noteq> []
        \<longrightarrow> prefix (calls s @ [CsInfo]) (calls s'))"
proof (intro conjI impI allI)
  assume "executable_url s \<in> set (cs_info env (calls s @ [CsInfo]))"
  from start_running[OF this] show
    "\<exists>s'. start env s =
               Some (Inl (HostError [package s @ ''/'' @ executable s @
                                     '' is running and must be stopped first.'']), s')
           \<and> new_calls s s' = [CsInfo]"
    by (simp add: str_fuzzer_def new_calls_def)
next
  assume "executable_url s \<in> set (cs_info env (calls s @ [CsInfo])) \<and> libfuzzer_inputs s \<noteq> []"
  then show
    "\<exists>s'. repro env s =
               Some (Inl (HostError [package s @ ''/'' @ executable s @
                                     '' is running and must be stopped first.'']), s')
           \<and> new_calls s s' = [CsInfo]"
    using repro_running[of s env] by (simp add: str_fuzzer_def new_calls_def)
next
  fix r s' assume "start env s = Some (r, s')"
  then show "prefix (calls s @ [CsInfo]) (calls s')" by (rule start_refreshes_first)
next
  fix r s' assume "repro env s = Some (r, s') \<and> libfuzzer_inputs s \<noteq> []"
  then show "prefix (calls s @ [CsInfo]) (calls s')" using repro_refreshes_first by blast
qed

theorem start_and_repro_require_stopped_witness:
  "executable_url fuzzer_repro \<in> set (cs_info env_running (calls fuzzer_repro @ [CsInfo])) \<and>
   libfuzzer_inputs fuzzer_repro \<noteq> [] \<and>
   (\<exists>s'. start env_running fuzzer_repro =
            Some (Inl (HostError [''fake-package1/fake-target1 is running and must be stopped first.'']), s')
        \<and> new_calls fuzzer_repro s' = [CsInfo]) \<and>
   (\<exists>s'. repro env_running fuzzer_repro =
            Some (Inl (HostError [''fake-package1/fake-target1 is running and must be stopped first.'']), s')
        \<and> new_calls fuzzer_repro s' = [CsInfo])"
proof -
  have a: "executable_url fuzzer_repro \<in> set (cs_info env_running (calls fuzzer_repro @ [CsInfo]))"
    by (simp add: fuzzer_repro_def env_running_def env0_def fuzzer0_def)
  have b: "libfuzzer_inputs fuzzer_repro \<noteq> []" by (simp add: fuzzer_repro_def)
  have c: "package fuzzer_repro @ ''/'' @ executable fuzzer_repro @ '' is running and must be stopped first.''
             = ''fake-package1/fake-target1 is running and must be stopped first.''"
    by (simp add: fuzzer_repro_def fuzzer0_def)
  show ?thesis
    using start_and_repro_require_stopped[of fuzzer_repro env_running] a b
    unfolding c by blast
qed

section \<open>The end of a reproduction\<close>

lemma launch_foreground:
  "foreground s \<Longrightarrow> launch env s = Some (Inr (), launch_popen s)"
  by (simp add: launch_def Let_def launch_popen_keeps)

lemma repro_until_wait:
  assumes "libfuzzer_inputs s \<noteq> []"
    and "executable_url s \<notin> set (cs_info env (calls s @ [CsInfo]))"
    and "store_result env (calls s @ [CsInfo, NsStore (ns_data []) (libfuzzer_inputs s)]) = Inr paths"
    and "sl = launch_popen
           (s\<lparr>urls := Some (cs_info env (calls s @ [CsInfo])),
              calls := calls s @ [CsInfo, NsStore (ns_data []) (libfuzzer_inputs s)],
              libfuzzer_inputs := paths, foreground := True\<rparr>)"
    and "sw = call Wait (snd (symbolize_log env (proc_stderr env (calls sl)) 0 True sl))"
  shows "repro env s = Some (Inr (), repro_after_wait env (proc_wait env (calls sw)) sw)"
proof -
  let ?s2 = "s\<lparr>urls := Some (cs_info env (calls s @ [CsInfo])),
               calls := calls s @ [CsInfo, NsStore (ns_data []) (libfuzzer_inputs s)]\<rparr>"
  have l: "launch env (?s2\<lparr>libfuzzer_inputs := paths, foreground := True\<rparr>) = Some (Inr (), sl)"
    unfolding assms(4) by (subst launch_foreground) simp_all
  show ?thesis
    using assms(1-3)
    by (simp add: repro_def require_stopped_unfold call_def Let_def l assms(5))
qed

text \<open>
  C4, as the claim states it, fails: the output of the reproduction is symbolized before
  the wait, so a run whose output has a mutation-sequence line fetches a symbol dump even
  though its wait returns zero.
\<close>

theorem repro_zero_exit_dump_counterexample:
  "filter is_dump_log (new_calls fuzzer_repro (snd (the (repro env_repro_ms fuzzer_repro))))
     = [DumpLog [''--pid'', ''7'']]
   \<and> proc_wait env_repro_ms (calls (snd (the (repro env_repro_ms fuzzer_repro)))) = 0"
proof
  have a: "libfuzzer_inputs fuzzer_repro \<noteq> []" by (simp add: fuzzer_repro_def)
  have b: "executable_url fuzzer_repro \<notin> set (cs_info env_repro_ms (calls fuzzer_repro @ [CsInfo]))"
    by (simp add: env_repro_ms_def env0_def)
  have c: "store_result env_repro_ms
             (calls fuzzer_repro @ [CsInfo, NsStore (ns_data []) (libfuzzer_inputs fuzzer_repro)])
           = Inr [''data/crash-deadbeef'']"
    by (simp add: env_repro_ms_def env0_def)
  show "filter is_dump_log (new_calls fuzzer_repro (snd (the (repro env_repro_ms fuzzer_repro))))
     = [DumpLog [''--pid'', ''7'']]"
    unfolding repro_until_wait[OF a b c refl refl] option.sel snd_conv
    by code_simp
  show "proc_wait env_repro_ms (calls (snd (the (repro env_repro_ms fuzzer_repro)))) = 0"
    by (simp add: env_repro_ms_def env0_def)
qed

lemma on_mut_last_known_pid:
  "last_known_pid (snd (on_mut env echo (v, s))) = last_known_pid s"
  by (subst on_mut_frame) simp

lemma symbolize_line_last_known_pid:
  "last_known_pid (snd (symbolize_line env echo line (v, s))) =
     (case pid_match line of None \<Rightarrow> last_known_pid s | Some p \<Rightarrow> p)"
proof -
  obtain v1 s1 where p: "on_pid line (v, s) = (v1, s1)" by (cases "on_pid line (v, s)")
  have l: "last_known_pid s1 = (case pid_match line of None \<Rightarrow> last_known_pid s | Some p \<Rightarrow> p)"
    using p by (auto simp: on_pid_def split: option.splits)
  show ?thesis
    unfolding symbolize_line_unfold p Let_def
    by (simp add: on_mut_last_known_pid host_echo_def call_def l)
qed

lemma fold_symbolize_line_last_known_pid:
  "last_known_pid (snd (fold (symbolize_line env echo) ls (v, s))) =
     (if List.map_filter pid_match ls = [] then last_known_pid s
      else last (List.map_filter pid_match ls))"
proof (induction ls arbitrary: v s)
  case Nil
  show ?case by (simp add: map_filter_simps)
next
  case (Cons l ls)
  obtain v1 s1 where p: "symbolize_line env echo l (v, s) = (v1, s1)"
    by (cases "symbolize_line env echo l (v, s)")
  have l: "last_known_pid s1 = (case pid_match l of None \<Rightarrow> last_known_pid s | Some p \<Rightarrow> p)"
    using symbolize_line_last_known_pid[of env echo l v s] p by simp
  show ?case
    by (simp add: p Cons.IH l map_filter_simps split: option.splits)
qed

lemma symbolize_log_last_known_pid:
  "last_known_pid (snd (symbolize_log env fd_in job_num echo s)) =
     (if List.map_filter pid_match (takeWhile (\<lambda>line. line \<noteq> []) fd_in) = [] then last_known_pid s
      else last (List.map_filter pid_match (takeWhile (\<lambda>line. line \<noteq> []) fd_in)))"
proof -
  let ?s0 = "call (OpenW (fst (logfile env job_num s))) (snd (logfile env job_num s))"
  let ?init = "\<lparr>pid = - 1, sym_out = None, artifacts = [], fd_out = []\<rparr>"
  have s0: "last_known_pid ?s0 = last_known_pid s"
    by (simp add: call_def logfile_def Let_def)
  obtain v1 s1 where l: "symbolize_loop env echo fd_in (?init, ?s0) = (v1, s1)"
    by (cases "symbolize_loop env echo fd_in (?init, ?s0)")
  have s1: "last_known_pid s1 =
     (if List.map_filter pid_match (takeWhile (\<lambda>line. line \<noteq> []) fd_in) = [] then last_known_pid s
      else last (List.map_filter pid_match (takeWhile (\<lambda>line. line \<noteq> []) fd_in)))"
    using fold_symbolize_line_last_known_pid[of env echo "takeWhile (\<lambda>line. line \<noteq> []) fd_in" ?init ?s0] l
    unfolding symbolize_loop_def by (simp add: s0)
  have "last_known_pid (snd (symbolize_log_impl env fd_in echo ?s0)) = last_known_pid s1"
    unfolding symbolize_log_impl_def l by (simp add: Let_def ns_fetch_def call_def)
  then show ?thesis
    unfolding symbolize_log_unfold Let_def by (simp add: s1)
qed

lemma launch_popen_last_known_pid: "last_known_pid (launch_popen s) = 0"
  by (simp add: launch_popen_def call_def Let_def)

lemma repro_last_known_pid:
  "last_known_pid (call Wait (snd (symbolize_log env fd_in 0 True (launch_popen s)))) = observed_pid fd_in"
  by (simp add: call_def symbolize_log_last_known_pid launch_popen_last_known_pid observed_pid_def Let_def)

text \<open>
  C4, amended. For every reproduce run that gets as far as waiting for the process (units
  given, target not running, units stored): if the wait returns zero, \<open>repro\<close> makes no
  further call after the wait, so the only symbol dumps of the run are those the
  symbolizing of the output fetched at a mutation-sequence line; if the wait returns
  non-zero, the last known pid is the pid of the last line of the output that starts with
  \<open>==<pid>==\<close>, and 0, to which the launch reset it, when the output has no such line;
  it is used when it is positive, a pid is otherwise asked of the device, and the dump for
  that pid is fetched, symbolized and echoed, whether or not the output had a
  mutation-sequence line.
\<close>

theorem repro_after_exit:
  assumes "libfuzzer_inputs s \<noteq> []"
    and "executable_url s \<notin> set (cs_info env (calls s @ [CsInfo]))"
    and "store_result env (calls s @ [CsInfo, NsStore (ns_data []) (libfuzzer_inputs s)]) = Inr paths"
    and "sl = launch_popen
           (s\<lparr>urls := Some (cs_info env (calls s @ [CsInfo])),
              calls := calls s @ [CsInfo, NsStore (ns_data []) (libfuzzer_inputs s)],
              libfuzzer_inputs := paths, foreground := True\<rparr>)"
    and "lines = proc_stderr env (calls sl)"
    and "sw = call Wait (snd (symbolize_log env lines 0 True sl))"
  shows "\<exists>s'. repro env s = Some (Inr (), s') \<and>
     calls s' = calls sw @
       (if proc_wait env (calls sw) = 0 then []
        else (let guess = (if observed_pid lines \<le> 0 then [GuessPid] else []);
                  pid = (if observed_pid lines \<le> 0 then guess_pid env (calls sw @ [GuessPid])
                         else observed_pid lines);
                  dump = DumpLog [''--pid'', str_int pid];
                  raw = dump_log env (calls sw @ guess @ [dump]);
                  sm = symbolize env (calls sw @ guess @ [dump, Symbolize raw])
              in guess @ [dump, Symbolize raw, Echo (strip sm)]))"
proof -
  have sw: "sw = call Wait (snd (symbolize_log env (proc_stderr env (calls sl)) 0 True sl))"
    using assms(5,6) by simp
  have r: "repro env s = Some (Inr (), repro_after_wait env (proc_wait env (calls sw)) sw)"
    using repro_until_wait[OF assms(1-4) sw] .
  have p: "last_known_pid sw = observed_pid lines"
    unfolding assms(6) assms(4) by (rule repro_last_known_pid)
  from repro_after_wait_new_calls[of env "proc_wait env (calls sw)" sw]
  have n: "calls (repro_after_wait env (proc_wait env (calls sw)) sw) = calls sw @
       (if proc_wait env (calls sw) = 0 then []
        else (let guess = (if observed_pid lines \<le> 0 then [GuessPid] else []);
                  pid = (if observed_pid lines \<le> 0 then guess_pid env (calls sw @ [GuessPid])
                         else observed_pid lines);
                  dump = DumpLog [''--pid'', str_int pid];
                  raw = dump_log env (calls sw @ guess @ [dump]);
                  sm = symbolize env (calls sw @ guess @ [dump, Symbolize raw])
              in guess @ [dump, Symbolize raw, Echo (strip sm)]))"
    unfolding p .
  from r n show ?thesis by (intro exI conjI) assumption+
qed

theorem repro_after_exit_witness:
  "libfuzzer_inputs fuzzer_repro \<noteq> [] \<and>
   executable_url fuzzer_repro \<notin> set (cs_info env_repro_crash (calls fuzzer_repro @ [CsInfo])) \<and>
   (\<exists>s' h. repro env_repro_crash fuzzer_repro = Some (Inr (), s') \<and>
      calls s' = h @ [Wait, GuessPid, DumpLog [''--pid'', ''7''], Symbolize ''raw log'',
                      Echo ''[[symbolizer output]]'']) \<and>
   (\<exists>s' h. repro env_repro_pid fuzzer_repro = Some (Inr (), s') \<and>
      calls s' = h @ [Wait, DumpLog [''--pid'', ''5''], Symbolize ''raw log'',
                      Echo ''[[symbolizer output]]''])"
proof -
  have a: "libfuzzer_inputs fuzzer_repro \<noteq> []" by (simp add: fuzzer_repro_def)
  have d: "str_int 7 = ''7''" "str_int 5 = ''5''" by code_simp+
  have e: "strip ''[[symbolizer output]]'' = ''[[symbolizer output]]''" by code_simp
  have o: "observed_pid [] = 0"
    "observed_pid [pid_line] = 5"
    by code_simp+
  have first: "\<exists>s' h. repro env_repro_crash fuzzer_repro = Some (Inr (), s') \<and>
      calls s' = h @ [Wait, GuessPid, DumpLog [''--pid'', ''7''], Symbolize ''raw log'',
                      Echo ''[[symbolizer output]]'']"
  proof -
    define sl where "sl = launch_popen
           (fuzzer_repro\<lparr>urls := Some (cs_info env_repro_crash (calls fuzzer_repro @ [CsInfo])),
              calls := calls fuzzer_repro @ [CsInfo, NsStore (ns_data []) (libfuzzer_inputs fuzzer_repro)],
              libfuzzer_inputs := [''data/crash-deadbeef''], foreground := True\<rparr>)"
    define sx where "sx = snd (symbolize_log env_repro_crash (proc_stderr env_repro_crash (calls sl)) 0 True sl)"
    have b: "executable_url fuzzer_repro \<notin> set (cs_info env_repro_crash (calls fuzzer_repro @ [CsInfo]))"
      by (simp add: env_repro_crash_def env0_def)
    have c: "store_result env_repro_crash
               (calls fuzzer_repro @ [CsInfo, NsStore (ns_data []) (libfuzzer_inputs fuzzer_repro)])
             = Inr [''data/crash-deadbeef'']"
      by (simp add: env_repro_crash_def env0_def)
    have f: "proc_wait env_repro_crash h = 77" "guess_pid env_repro_crash h = 7"
      "dump_log env_repro_crash h = ''raw log''"
      "symbolize env_repro_crash h = ''[[symbolizer output]]''"
      "proc_stderr env_repro_crash h = []" for h
      by (simp_all add: env_repro_crash_def env0_def)
    from repro_after_exit[OF a b c sl_def refl refl]
    obtain s' where r: "repro env_repro_crash fuzzer_repro = Some (Inr (), s')"
      "calls s' = calls sx @ [Wait, GuessPid, DumpLog [''--pid'', ''7''], Symbolize ''raw log'',
                      Echo ''[[symbolizer output]]'']"
      by (auto simp: f o d e Let_def call_def sx_def)
    then show ?thesis by blast
  qed
  have second: "\<exists>s' h. repro env_repro_pid fuzzer_repro = Some (Inr (), s') \<and>
      calls s' = h @ [Wait, DumpLog [''--pid'', ''5''], Symbolize ''raw log'',
                      Echo ''[[symbolizer output]]'']"
  proof -
    define sl where "sl = launch_popen
           (fuzzer_repro\<lparr>urls := Some (cs_info env_repro_pid (calls fuzzer_repro @ [CsInfo])),
              calls := calls fuzzer_repro @ [CsInfo, NsStore (ns_data []) (libfuzzer_inputs fuzzer_repro)],
              libfuzzer_inputs := [''data/crash-deadbeef''], foreground := True\<rparr>)"
    define sx where "sx = snd (symbolize_log env_repro_pid (proc_stderr env_repro_pid (calls sl)) 0 True sl)"
    have b: "executable_url fuzzer_repro \<notin> set (cs_info env_repro_pid (calls fuzzer_repro @ [CsInfo]))"
      by (simp add: env_repro_pid_def env0_def)
    have c: "store_result env_repro_pid
               (calls fuzzer_repro @ [CsInfo, NsStore (ns_data []) (libfuzzer_inputs fuzzer_repro)])
             = Inr [''data/crash-deadbeef'']"
      by (simp add: env_repro_pid_def env0_def)
    have f: "proc_wait env_repro_pid h = 77"
      "dump_log env_repro_pid h = ''raw log''"
      "symbolize env_repro_pid h = ''[[symbolizer output]]''"
      "proc_stderr env_repro_pid h = [pid_line]" for h
      by (simp_all add: env_repro_pid_def env0_def)
    from repro_after_exit[OF a b c sl_def refl refl]
    obtain s' where r: "repro env_repro_pid fuzzer_repro = Some (Inr (), s')"
      "calls s' = calls sx @ [Wait, DumpLog [''--pid'', ''5''], Symbolize ''raw log'',
                      Echo ''[[symbolizer output]]'']"
      by (auto simp: f o d e Let_def call_def sx_def)
    then show ?thesis by blast
  qed
  have b: "executable_url fuzzer_repro \<notin> set (cs_info env_repro_crash (calls fuzzer_repro @ [CsInfo]))"
    by (simp add: env_repro_crash_def env0_def)
  from a b first second show ?thesis by blast
qed

section \<open>Monitoring\<close>

lemma fold_update_dom:
  "dom (map_of al) \<subseteq> dom (map_of (fold (\<lambda>(n, c). AList.update (f n) c) xs al))"
proof (induction xs arbitrary: al)
  case Nil
  show ?case by simp
next
  case (Cons x xs)
  obtain n c where x: "x = (n, c)" by (cases x)
  have "dom (map_of al) \<subseteq> dom (map_of (AList.update (f n) c al))"
    by (auto simp: update_conv')
  with Cons.IH[of "AList.update (f n) c al"] show ?case
    by (auto simp: x)
qed

lemma ns_fetch_keeps:
  "dom (map_of (files s)) \<subseteq> dom (map_of (files (ns_fetch env dst paths s)))"
  "output_dir (ns_fetch env dst paths s) = output_dir s"
  "calls (ns_fetch env dst paths s) = calls s @ [NsFetch dst paths]"
  using fold_update_dom[of "files s" "\<lambda>n. path_join dst (basename n)"]
  by (simp_all add: ns_fetch_def call_def Let_def)

lemma symbolize_log_impl_keeps:
  "dom (map_of (files s)) \<subseteq> dom (map_of (files (snd (symbolize_log_impl env fd_in echo s))))"
  "output_dir (snd (symbolize_log_impl env fd_in echo s)) = output_dir s"
proof -
  let ?init = "\<lparr>pid = - 1, sym_out = None, artifacts = [], fd_out = []\<rparr>"
  obtain v1 s1 where l: "symbolize_loop env echo fd_in (?init, s) = (v1, s1)"
    by (cases "symbolize_loop env echo fd_in (?init, s)")
  obtain p evs where s1: "s1 = s\<lparr>last_known_pid := p, calls := calls s @ evs\<rparr>"
    using symbolize_loop_ex[of env echo fd_in ?init s] l by auto
  have f: "files s1 = files s" "output_dir s1 = output_dir s" by (simp_all add: s1)
  show "dom (map_of (files s)) \<subseteq> dom (map_of (files (snd (symbolize_log_impl env fd_in echo s))))"
    using ns_fetch_keeps(1)[of s1 env "output_dir s1" "artifacts v1"] f
    by (simp add: symbolize_log_impl_def l Let_def)
  show "output_dir (snd (symbolize_log_impl env fd_in echo s)) = output_dir s"
    using f by (simp add: symbolize_log_impl_def l Let_def ns_fetch_keeps)
qed

lemma logfile_keeps:
  "files (snd (logfile env job_num s)) = files s"
  by (simp add: logfile_def Let_def call_def)

lemma logfile_name:
  "\<exists>b. fst (logfile env job_num s) =
     path_join (output_dir s) (''fuzz-'' @ b @ ''-'' @ str_nat job_num @ ''.log'')"
proof -
  have "fst (logfile env job_num s) =
     path_join (output_dir s)
       (''fuzz-'' @ the (logbase (snd (logfile env job_num s))) @ ''-'' @ str_nat job_num @ ''.log'')"
    by (simp add: logfile_def Let_def call_def)
  then show ?thesis by blast
qed

lemma symbolize_log_keeps:
  "dom (map_of (files s)) \<subseteq> dom (map_of (files (snd (symbolize_log env fd_in job_num echo s))))"
  "output_dir (snd (symbolize_log env fd_in job_num echo s)) = output_dir s"
proof -
  let ?s0 = "call (OpenW (fst (logfile env job_num s))) (snd (logfile env job_num s))"
  have f0: "files ?s0 = files s" "output_dir ?s0 = output_dir s"
    by (simp_all add: call_def logfile_keeps logfile_output_dir)
  from symbolize_log_impl_keeps(1)[of ?s0 env fd_in echo] f0
  show "dom (map_of (files s)) \<subseteq> dom (map_of (files (snd (symbolize_log env fd_in job_num echo s))))"
    by (auto simp: symbolize_log_unfold Let_def update_conv')
  from symbolize_log_impl_keeps(2)[of env fd_in echo ?s0] f0
  show "output_dir (snd (symbolize_log env fd_in job_num echo s)) = output_dir s"
    by (simp add: symbolize_log_unfold Let_def)
qed

lemma sym_event_not_file: "sym_event e \<Longrightarrow> \<not> is_file_event e"
  by (cases e) simp_all

lemma filter_file_sym_events: "\<forall>e\<in>set evs. sym_event e \<Longrightarrow> filter is_file_event evs = []"
  by (induction evs) (auto dest: sym_event_not_file)

lemma sym_event_not_remote_remove: "sym_event e \<Longrightarrow> \<not> is_remote_remove e"
  by (cases e) simp_all

lemma symbolize_log_file_calls:
  "\<exists>evs. calls (snd (symbolize_log env fd_in job_num echo s)) = calls s @ evs \<and>
         filter is_file_event evs = [OpenW (fst (logfile env job_num s))] \<and>
         (\<forall>e\<in>set evs. \<not> is_remote_remove e)"
proof -
  obtain evs where e: "\<forall>e\<in>set evs. sym_event e"
    "new_calls s (snd (symbolize_log env fd_in job_num echo s)) =
       (if truthy (logbase s) then [] else [Now]) @ [OpenW (fst (logfile env job_num s))] @ evs @
       (if artifact_refs fd_in = [] then [] else [NsFetch (output_dir s) (artifact_refs fd_in)]) @
       [Link (fst (logfile env job_num s)) (path_join (output_dir s) ''fuzz-latest.log'')]"
    using symbolize_log_new_calls by blast
  from symbolize_log_extends[of s env fd_in job_num echo]
  have c: "calls (snd (symbolize_log env fd_in job_num echo s)) =
             calls s @ new_calls s (snd (symbolize_log env fd_in job_num echo s))"
    by (auto simp: prefix_def new_calls_def)
  have f: "filter is_file_event (new_calls s (snd (symbolize_log env fd_in job_num echo s))) =
          [OpenW (fst (logfile env job_num s))]"
    unfolding e(2) by (simp add: filter_file_sym_events[OF e(1)])
  have r: "\<forall>e\<in>set (new_calls s (snd (symbolize_log env fd_in job_num echo s))). \<not> is_remote_remove e"
    unfolding e(2) using e(1) by (auto dest: sym_event_not_remote_remove)
  from c f r show ?thesis by blast
qed

lemma log_steps_Cons:
  "log_steps out k (l # logs) (b # bs) =
     [OpenR l, OpenW (path_join out (''fuzz-'' @ b @ ''-'' @ str_nat k @ ''.log'')), Remove l]
     @ log_steps out (Suc k) logs bs"
  by (simp add: log_steps_def)

lemma monitor_logs_trace:
  assumes "set logs \<subseteq> dom (map_of (files s))" and "distinct logs"
  shows "\<exists>bs s' evs. length bs = length logs \<and>
           monitor_logs env (enumerate k logs) s = (Inr (), s') \<and>
           calls s' = calls s @ evs \<and>
           filter is_file_event evs = log_steps (output_dir s) k logs bs \<and>
           (\<forall>e\<in>set evs. \<not> is_remote_remove e)"
  using assms
proof (induction logs arbitrary: s k)
  case Nil
  have "monitor_logs env (enumerate k []) s = (Inr (), s) \<and> calls s = calls s @ [] \<and>
        filter is_file_event [] = log_steps (output_dir s) k [] [] \<and>
        (\<forall>e\<in>set []. \<not> is_remote_remove e)"
    by (simp add: log_steps_def)
  then show ?case by (metis length_0_conv)
next
  case (Cons l logs)
  let ?s1 = "call (OpenR l) s"
  from Cons.prems(1) obtain content where c: "map_of (files ?s1) l = Some content"
    by (auto simp: call_def)
  let ?s2 = "snd (symbolize_log env (readlines content) k False ?s1)"
  let ?s3 = "host_remove l ?s2"
  obtain evs2 where e2: "calls ?s2 = calls ?s1 @ evs2"
    "filter is_file_event evs2 = [OpenW (fst (logfile env k ?s1))]"
    "\<forall>e\<in>set evs2. \<not> is_remote_remove e"
    using symbolize_log_file_calls by blast
  obtain b where b: "fst (logfile env k ?s1) =
     path_join (output_dir ?s1) (''fuzz-'' @ b @ ''-'' @ str_nat k @ ''.log'')"
    using logfile_name by blast
  have o: "output_dir ?s3 = output_dir s"
    by (simp add: host_remove_def call_def symbolize_log_keeps(2))
  have "set logs \<subseteq> dom (map_of (files ?s1))"
    using Cons.prems(1) by (simp add: call_def)
  with symbolize_log_keeps(1)[of ?s1 env "readlines content" k False]
  have "set logs \<subseteq> dom (map_of (files ?s2))" by blast
  moreover have "l \<notin> set logs" using Cons.prems(2) by simp
  ultimately have p3: "set logs \<subseteq> dom (map_of (files ?s3))"
    by (auto simp: host_remove_def call_def delete_conv')
  have d3: "distinct logs" using Cons.prems(2) by simp
  from Cons.IH[OF p3 d3, of "Suc k"] obtain bs s' evs where
    ih: "length bs = length logs" "monitor_logs env (enumerate (Suc k) logs) ?s3 = (Inr (), s')"
      "calls s' = calls ?s3 @ evs"
      "filter is_file_event evs = log_steps (output_dir ?s3) (Suc k) logs bs"
      "\<forall>e\<in>set evs. \<not> is_remote_remove e"
    by blast
  have m: "monitor_logs env (enumerate k (l # logs)) s = (Inr (), s')"
    using c ih(2) by (simp add: Let_def)
  have cs: "calls s' = calls s @ ([OpenR l] @ evs2 @ [Remove l] @ evs)"
    using ih(3) e2(1) by (simp add: host_remove_def call_def)
  have f: "filter is_file_event ([OpenR l] @ evs2 @ [Remove l] @ evs) =
             log_steps (output_dir s) k (l # logs) (b # bs)"
    using e2(2) ih(4)[unfolded o] b by (simp add: log_steps_Cons call_def)
  have r: "\<forall>e\<in>set ([OpenR l] @ evs2 @ [Remove l] @ evs). \<not> is_remote_remove e"
    using e2(3) ih(5) by auto
  have "length (b # bs) = length (l # logs)" using ih(1) by simp
  with m cs f r show ?case by blast
qed

lemma wait_rounds_Suc: "wait_rounds (Suc k) = [CsInfo, Sleep 2000] @ wait_rounds k"
  by (simp add: wait_rounds_def)

lemma monitor_wait_rounds:
  assumes "\<forall>k<n. executable_url s \<in> set (cs_info env (calls s @ wait_rounds k @ [CsInfo]))"
    and "executable_url s \<notin> set (cs_info env (calls s @ wait_rounds n @ [CsInfo]))"
  shows "monitor_wait env s =
           Some (s\<lparr>urls := Some (cs_info env (calls s @ wait_rounds n @ [CsInfo])),
                   calls := calls s @ wait_rounds n @ [CsInfo]\<rparr>)"
  using assms
proof (induction n arbitrary: s)
  case 0
  then show ?case
    by (subst monitor_wait.simps) (simp add: is_running_refresh wait_rounds_def)
next
  case (Suc n)
  let ?s1 = "s\<lparr>urls := Some (cs_info env (calls s @ [CsInfo])),
               calls := calls s @ [CsInfo, Sleep 2000]\<rparr>"
  have first: "executable_url s \<in> set (cs_info env (calls s @ [CsInfo]))"
    using Suc.prems(1)[rule_format, of 0] by (simp add: wait_rounds_def)
  have rest: "\<forall>k<n. executable_url ?s1 \<in> set (cs_info env (calls ?s1 @ wait_rounds k @ [CsInfo]))"
  proof (intro allI impI)
    fix k assume "k < n"
    then have "Suc k < Suc n" by simp
    from Suc.prems(1)[rule_format, OF this]
    show "executable_url ?s1 \<in> set (cs_info env (calls ?s1 @ wait_rounds k @ [CsInfo]))"
      by (simp add: wait_rounds_Suc)
  qed
  have last: "executable_url ?s1 \<notin> set (cs_info env (calls ?s1 @ wait_rounds n @ [CsInfo]))"
    using Suc.prems(2) by (simp add: wait_rounds_Suc)
  have "monitor_wait env s = monitor_wait env ?s1"
    using first
    by (subst monitor_wait.simps) (simp add: is_running_refresh host_sleep_def call_def)
  also have "\<dots> = Some (?s1\<lparr>urls := Some (cs_info env (calls ?s1 @ wait_rounds n @ [CsInfo])),
                   calls := calls ?s1 @ wait_rounds n @ [CsInfo]\<rparr>)"
    using Suc.IH[OF rest last] .
  finally show ?case by (simp add: wait_rounds_Suc)
qed

lemma host_glob_unfold:
  "host_glob pattern s =
     (sort (remdups (filter (glob_match pattern) (map fst (files s)))),
      s\<lparr>calls := calls s @ [Glob pattern]\<rparr>)"
  by (simp add: host_glob_def call_def Let_def)

lemma monitor_retrieve_trace:
  "\<exists>bs s' evs. length bs = length (local_logs env s) \<and>
      monitor_retrieve env s = (Inr (), s') \<and>
      calls s' = calls s @
        [NsFetch (output_dir s) [ns_data LOG_PATTERN], NsRemove (ns_data LOG_PATTERN),
         Glob (path_join (output_dir s) LOG_PATTERN)] @ evs \<and>
      filter is_file_event evs = log_steps (output_dir s) 0 (local_logs env s) bs \<and>
      (\<forall>e\<in>set evs. \<not> is_remote_remove e)"
proof -
  let ?s1 = "ns_remove (ns_data LOG_PATTERN) (ns_fetch env (output_dir s) [ns_data LOG_PATTERN] s)"
  let ?pat = "path_join (output_dir s) LOG_PATTERN"
  let ?s2 = "snd (host_glob ?pat ?s1)"
  have o1: "output_dir ?s1 = output_dir s" "output_dir ?s2 = output_dir s"
    by (simp_all add: ns_remove_def call_def ns_fetch_keeps host_glob_unfold)
  have c2: "calls ?s2 = calls s @
        [NsFetch (output_dir s) [ns_data LOG_PATTERN], NsRemove (ns_data LOG_PATTERN), Glob ?pat]"
    by (simp add: ns_remove_def call_def ns_fetch_keeps host_glob_unfold)
  have ll: "local_logs env s = fst (host_glob ?pat ?s1)" by (simp add: local_logs_def)
  have sub: "set (local_logs env s) \<subseteq> dom (map_of (files ?s2))"
    unfolding ll by (auto simp: host_glob_unfold dom_map_of_conv_image_fst)
  have dis: "distinct (local_logs env s)"
    unfolding ll by (simp add: host_glob_unfold)
  have mr: "monitor_retrieve env s = monitor_logs env (enumerate 0 (local_logs env s)) ?s2"
    by (simp add: monitor_retrieve_def Let_def case_prod_beta ll o1)
  from monitor_logs_trace[OF sub dis, of env 0] obtain bs s' evs where
    t: "length bs = length (local_logs env s)"
      "monitor_logs env (enumerate 0 (local_logs env s)) ?s2 = (Inr (), s')"
      "calls s' = calls ?s2 @ evs"
      "filter is_file_event evs = log_steps (output_dir ?s2) 0 (local_logs env s) bs"
      "\<forall>e\<in>set evs. \<not> is_remote_remove e"
    by blast
  have "calls s' = calls s @
        [NsFetch (output_dir s) [ns_data LOG_PATTERN], NsRemove (ns_data LOG_PATTERN), Glob ?pat] @ evs"
    using t(3) c2 by simp
  with t(1,2,4,5) mr o1(2) show ?thesis by auto
qed

lemma monitor_trace:
  assumes "\<forall>k<n. executable_url s \<in> set (cs_info env (calls s @ wait_rounds k @ [CsInfo]))"
    and "executable_url s \<notin> set (cs_info env (calls s @ wait_rounds n @ [CsInfo]))"
    and "sw = s\<lparr>urls := Some (cs_info env (calls s @ wait_rounds n @ [CsInfo])),
                calls := calls s @ wait_rounds n @ [CsInfo]\<rparr>"
  shows "\<exists>bs s' evs. length bs = length (local_logs env sw) \<and>
      monitor env s = Some (Inr (), s') \<and>
      calls s' = calls s @ wait_rounds n @
        [CsInfo, NsFetch (output_dir s) [ns_data LOG_PATTERN], NsRemove (ns_data LOG_PATTERN),
         Glob (path_join (output_dir s) LOG_PATTERN)] @ evs \<and>
      filter is_file_event evs = log_steps (output_dir s) 0 (local_logs env sw) bs \<and>
      (\<forall>e\<in>set evs. \<not> is_remote_remove e)"
proof -
  have w: "monitor_wait env s = Some sw"
    unfolding assms(3) using monitor_wait_rounds[OF assms(1,2)] .
  have o: "output_dir sw = output_dir s" "calls sw = calls s @ wait_rounds n @ [CsInfo]"
    by (simp_all add: assms(3))
  from monitor_retrieve_trace[of env sw] obtain bs s' evs where
    t: "length bs = length (local_logs env sw)"
      "monitor_retrieve env sw = (Inr (), s')"
      "calls s' = calls sw @
        [NsFetch (output_dir sw) [ns_data LOG_PATTERN], NsRemove (ns_data LOG_PATTERN),
         Glob (path_join (output_dir sw) LOG_PATTERN)] @ evs"
      "filter is_file_event evs = log_steps (output_dir sw) 0 (local_logs env sw) bs"
      "\<forall>e\<in>set evs. \<not> is_remote_remove e"
    by blast
  have m: "monitor env s = Some (Inr (), s')" by (simp add: monitor_def w t(2))
  have c: "calls s' = calls s @ wait_rounds n @
        [CsInfo, NsFetch (output_dir s) [ns_data LOG_PATTERN], NsRemove (ns_data LOG_PATTERN),
         Glob (path_join (output_dir s) LOG_PATTERN)] @ evs"
    using t(3) by (simp add: o)
  from t(1) m c t(4)[unfolded o] t(5) show ?thesis by blast
qed

lemma monitor_wait_Some:
  assumes "monitor_wait env s = Some sw"
  shows "\<exists>n. (\<forall>k<n. executable_url s \<in> set (cs_info env (calls s @ wait_rounds k @ [CsInfo]))) \<and>
             executable_url s \<notin> set (cs_info env (calls s @ wait_rounds n @ [CsInfo]))"
proof -
  have step: "\<exists>n. (\<forall>k<n. executable_url s \<in> set (cs_info env (calls s @ wait_rounds k @ [CsInfo]))) \<and>
             executable_url s \<notin> set (cs_info env (calls s @ wait_rounds n @ [CsInfo]))"
    if ih: "\<And>env s y. f env s = Some y \<Longrightarrow>
              \<exists>n. (\<forall>k<n. executable_url s \<in> set (cs_info env (calls s @ wait_rounds k @ [CsInfo]))) \<and>
                   executable_url s \<notin> set (cs_info env (calls s @ wait_rounds n @ [CsInfo]))"
    and body: "(if fst (is_running env True s)
                then f env (host_sleep 2000 (snd (is_running env True s)))
                else Some (snd (is_running env True s))) = Some sw"
    for f :: "env \<Rightarrow> fuzzer \<Rightarrow> fuzzer option" and env s sw
  proof (cases "executable_url s \<in> set (cs_info env (calls s @ [CsInfo]))")
    case False
    then have "(\<forall>k<(0::nat). executable_url s \<in> set (cs_info env (calls s @ wait_rounds k @ [CsInfo]))) \<and>
             executable_url s \<notin> set (cs_info env (calls s @ wait_rounds 0 @ [CsInfo]))"
      by (simp add: wait_rounds_def)
    then show ?thesis by blast
  next
    case True
    let ?s1 = "s\<lparr>urls := Some (cs_info env (calls s @ [CsInfo])),
                 calls := calls s @ [CsInfo, Sleep 2000]\<rparr>"
    from True body have "f env ?s1 = Some sw"
      by (simp add: is_running_refresh host_sleep_def call_def)
    from ih[OF this] obtain n where
      n: "\<forall>k<n. executable_url s \<in> set (cs_info env (calls s @ wait_rounds (Suc k) @ [CsInfo]))"
         "executable_url s \<notin> set (cs_info env (calls s @ wait_rounds (Suc n) @ [CsInfo]))"
      by (auto simp: wait_rounds_Suc)
    have "\<forall>k<Suc n. executable_url s \<in> set (cs_info env (calls s @ wait_rounds k @ [CsInfo]))"
    proof (intro allI impI)
      fix k assume k: "k < Suc n"
      show "executable_url s \<in> set (cs_info env (calls s @ wait_rounds k @ [CsInfo]))"
      proof (cases k)
        case 0
        with True show ?thesis by (simp add: wait_rounds_def)
      next
        case (Suc j)
        with k n(1) show ?thesis by simp
      qed
    qed
    with n(2) show ?thesis by blast
  qed
  show ?thesis
    by (rule monitor_wait.raw_induct[where P = "\<lambda>env s sw.
          \<exists>n. (\<forall>k<n. executable_url s \<in> set (cs_info env (calls s @ wait_rounds k @ [CsInfo]))) \<and>
             executable_url s \<notin> set (cs_info env (calls s @ wait_rounds n @ [CsInfo]))",
          OF step assms])
qed

lemma log_steps_members:
  "length bs = length logs \<Longrightarrow>
   OpenR p \<in> set (log_steps out k logs bs) \<or> Remove p \<in> set (log_steps out k logs bs) \<Longrightarrow>
   p \<in> set logs"
proof (induction logs arbitrary: bs k)
  case Nil
  then show ?case by (simp add: log_steps_def)
next
  case (Cons l logs)
  then obtain b bs' where bs: "bs = b # bs'" by (cases bs) auto
  from Cons show ?case by (auto simp: bs log_steps_Cons)
qed

lemma local_logs_match:
  "p \<in> set (local_logs env s) \<Longrightarrow> glob_match (path_join (output_dir s) LOG_PATTERN) p"
  by (simp add: local_logs_def host_glob_unfold)





section \<open>What the log pattern matches\<close>

lemma str_nat_nonempty: "str_nat n \<noteq> []"
  by (subst str_nat.simps) simp

lemma str_nat_two_digits: "10 \<le> n \<Longrightarrow> 2 \<le> length (str_nat n)"
  using str_nat_nonempty[of "n div 10"]
  by (subst str_nat.simps) (cases "str_nat (n div 10)", simp_all)

lemma glob_log_pattern_length: "glob_match LOG_PATTERN s \<Longrightarrow> length s = 10"
  by (auto simp: LOG_PATTERN_def split: list.splits)

lemma glob_log_pattern_iff:
  "glob_match LOG_PATTERN nm \<longleftrightarrow> (\<exists>d. isdigit d \<and> nm = ''fuzz-'' @ [d] @ ''.log'')"
  by (auto simp: LOG_PATTERN_def isdigit_def Let_def less_eq_char_def split: list.splits)

lemma glob_match_literal_prefix:
  "CHR ''['' \<notin> set xs \<Longrightarrow> glob_match (xs @ p) (xs @ s) = glob_match p s"
  by (induction xs) auto

lemma glob_suffix_log_pattern_length:
  "glob_match (xs @ LOG_PATTERN) s \<Longrightarrow> length s \<le> length xs + 10"
proof (induction xs arbitrary: s rule: length_induct)
  case (1 xs)
  show ?case
  proof (cases xs)
    case Nil
    with 1(2) show ?thesis using glob_log_pattern_length by simp
  next
    case (Cons p ps)
    with 1(2) have g: "glob_match (p # (ps @ LOG_PATTERN)) s" by simp
    then obtain c cs where s: "s = c # cs" by (cases s) (auto split: if_splits)
    show ?thesis
    proof (cases "p = CHR ''['' \<and> 4 \<le> length (ps @ LOG_PATTERN) \<and>
                  (ps @ LOG_PATTERN) ! 1 = CHR ''-'' \<and> (ps @ LOG_PATTERN) ! 3 = CHR '']''")
      case False
      with g s have "glob_match (ps @ LOG_PATTERN) cs" by (auto split: if_splits)
      with 1(1)[rule_format, of ps cs] Cons s show ?thesis by simp
    next
      case True
      have long: "4 \<le> length ps"
      proof (rule ccontr)
        assume "\<not> 4 \<le> length ps"
        then consider "length ps = 0" | "length ps = 1" | "length ps = 2" | "length ps = 3"
          by linarith
        then show False
          using True by cases (auto simp: nth_append LOG_PATTERN_def)
      qed
      with True g s have m: "glob_match (drop 4 ps @ LOG_PATTERN) cs" by simp
      have "length (drop 4 ps) < length xs" using Cons by simp
      from 1(1)[rule_format, OF this m] have "length cs \<le> length (drop 4 ps) + 10" .
      with Cons s long show ?thesis by simp
    qed
  qed
qed

lemma job_log_name_length:
  "10 \<le> n \<Longrightarrow> 11 \<le> length (''fuzz-'' @ str_nat n @ ''.log'')"
  using str_nat_two_digits[of n] by simp

lemma path_join_relative:
  "\<not> prefix ''/'' b \<Longrightarrow>
     path_join a b = (if a = [] \<or> last a = CHR ''/'' then a else a @ ''/'') @ b"
  by (simp add: path_join_def)

lemma job_log_not_matched:
  assumes "10 \<le> n"
  shows "\<not> glob_match (ns_data LOG_PATTERN) (ns_data (''fuzz-'' @ str_nat n @ ''.log''))"
    and "\<not> glob_match (path_join out LOG_PATTERN) (path_join out (''fuzz-'' @ str_nat n @ ''.log''))"
proof -
  let ?name = "''fuzz-'' @ str_nat n @ ''.log''"
  have len: "11 \<le> length ?name" using job_log_name_length[OF assms] .
  show "\<not> glob_match (ns_data LOG_PATTERN) (ns_data ?name)"
  proof
    assume "glob_match (ns_data LOG_PATTERN) (ns_data ?name)"
    then have "glob_match (''data/'' @ LOG_PATTERN) (''data/'' @ ?name)"
      by (simp add: ns_data_def)
    from glob_suffix_log_pattern_length[OF this] len show False by simp
  qed
  let ?a = "if out = [] \<or> last out = CHR ''/'' then out else out @ ''/''"
  have p: "path_join out LOG_PATTERN = ?a @ LOG_PATTERN"
    by (rule path_join_relative) (simp add: LOG_PATTERN_def)
  have q: "path_join out ?name = ?a @ ?name"
    by (rule path_join_relative) simp
  show "\<not> glob_match (path_join out LOG_PATTERN) (path_join out ?name)"
  proof
    assume "glob_match (path_join out LOG_PATTERN) (path_join out ?name)"
    then have "glob_match (?a @ LOG_PATTERN) (?a @ ?name)" unfolding p q .
    from glob_suffix_log_pattern_length[OF this] len show False by simp
  qed
qed

lemma ns_data_log_pattern_iff:
  "glob_match (ns_data LOG_PATTERN) (ns_data nm)
     \<longleftrightarrow> (\<exists>d. isdigit d \<and> nm = ''fuzz-'' @ [d] @ ''.log'')"
proof -
  have "glob_match (ns_data LOG_PATTERN) (ns_data nm) = glob_match LOG_PATTERN nm"
    unfolding ns_data_def by (rule glob_match_literal_prefix) simp
  then show ?thesis by (simp only: glob_log_pattern_iff)
qed

lemma monitor_returns_trace:
  assumes "monitor env s = Some (r, s')"
  shows "\<exists>k sw bs evs. length bs = length (local_logs env sw) \<and> output_dir sw = output_dir s \<and>
      files sw = files s \<and> calls sw = calls s @ wait_rounds k @ [CsInfo] \<and>
      r = Inr () \<and>
      calls s' = calls s @ wait_rounds k @
        [CsInfo, NsFetch (output_dir s) [ns_data LOG_PATTERN], NsRemove (ns_data LOG_PATTERN),
         Glob (path_join (output_dir s) LOG_PATTERN)] @ evs \<and>
      filter is_file_event evs = log_steps (output_dir s) 0 (local_logs env sw) bs \<and>
      (\<forall>e\<in>set evs. \<not> is_remote_remove e)"
proof -
  from assms obtain sw0 where "monitor_wait env s = Some sw0"
    by (auto simp: monitor_def split: option.splits)
  from monitor_wait_Some[OF this] obtain n where
    n: "\<forall>k<n. executable_url s \<in> set (cs_info env (calls s @ wait_rounds k @ [CsInfo]))"
       "executable_url s \<notin> set (cs_info env (calls s @ wait_rounds n @ [CsInfo]))"
    by blast
  define sw where "sw = s\<lparr>urls := Some (cs_info env (calls s @ wait_rounds n @ [CsInfo])),
                calls := calls s @ wait_rounds n @ [CsInfo]\<rparr>"
  from monitor_trace[OF n sw_def] assms obtain bs evs where
    t: "length bs = length (local_logs env sw)" "r = Inr ()"
       "calls s' = calls s @ wait_rounds n @
        [CsInfo, NsFetch (output_dir s) [ns_data LOG_PATTERN], NsRemove (ns_data LOG_PATTERN),
         Glob (path_join (output_dir s) LOG_PATTERN)] @ evs"
       "filter is_file_event evs = log_steps (output_dir s) 0 (local_logs env sw) bs"
       "\<forall>e\<in>set evs. \<not> is_remote_remove e"
    by auto
  have o: "output_dir sw = output_dir s" "files sw = files s"
    "calls sw = calls s @ wait_rounds n @ [CsInfo]" by (simp_all add: sw_def)
  from t o show ?thesis by blast
qed

lemma fold_update_other:
  "\<forall>(n, c)\<in>set xs. f n \<noteq> k \<Longrightarrow>
     map_of (fold (\<lambda>(n, c). AList.update (f n) c) xs al) k = map_of al k"
proof (induction xs arbitrary: al)
  case Nil
  show ?case by simp
next
  case (Cons x xs)
  obtain n c where x: "x = (n, c)" by (cases x)
  from Cons.prems have a: "f n \<noteq> k" and b: "\<forall>(n, c)\<in>set xs. f n \<noteq> k" by (auto simp: x)
  show ?case using Cons.IH[OF b, of "AList.update (f n) c al"] a
    by (simp add: x update_conv')
qed

lemma basename_single_digit_log:
  "isdigit d \<Longrightarrow> basename (''fuzz-'' @ [d] @ ''.log'') = ''fuzz-'' @ [d] @ ''.log''"
  by (auto simp: basename_def isdigit_def Let_def)

lemma path_join_inject:
  "\<not> prefix ''/'' a \<Longrightarrow> \<not> prefix ''/'' b \<Longrightarrow> path_join out a = path_join out b \<Longrightarrow> a = b"
  by (simp add: path_join_relative)

lemma retrieval_leaves_job_log:
  assumes "10 \<le> n" and "name = ''fuzz-'' @ str_nat n @ ''.log''"
  shows "map_of (files (ns_fetch env out [ns_data LOG_PATTERN] s)) (path_join out name) =
         map_of (files s) (path_join out name)"
proof -
  have "\<forall>(nm, c)\<in>set (fetched env (calls s @ [NsFetch out [ns_data LOG_PATTERN]]) [ns_data LOG_PATTERN]).
          path_join out (basename nm) \<noteq> path_join out name"
  proof (clarify)
    fix nm c
    assume m: "(nm, c) \<in> set (fetched env (calls s @ [NsFetch out [ns_data LOG_PATTERN]]) [ns_data LOG_PATTERN])"
      and e: "path_join out (basename nm) = path_join out name"
    from m have "glob_match (ns_data LOG_PATTERN) (ns_data nm)" by (auto simp: fetched_def)
    then obtain d where d: "isdigit d" "nm = ''fuzz-'' @ [d] @ ''.log''"
      unfolding ns_data_log_pattern_iff by blast
    have b: "basename nm = nm" unfolding d(2) using basename_single_digit_log[OF d(1)] .
    have "nm = name"
      using e unfolding b by (rule path_join_inject[rotated 2]) (simp_all add: d(2) assms(2))
    then have "glob_match (ns_data LOG_PATTERN) (ns_data name)"
      using \<open>glob_match (ns_data LOG_PATTERN) (ns_data nm)\<close> by simp
    with job_log_not_matched(1)[OF assms(1)] show False by (simp add: assms(2))
  qed
  from fold_update_other[OF this, of "files (call (NsFetch out [ns_data LOG_PATTERN]) s)"]
  show ?thesis by (simp add: ns_fetch_def Let_def call_def)
qed

lemma no_single_digit_log_listing:
  assumes "\<forall>nm\<in>fst ` set (remote_data env h). \<not> (\<exists>d. isdigit d \<and> nm = ''fuzz-'' @ [d] @ ''.log'')"
  shows "remote_ls env h (ns_data LOG_PATTERN) = []"
  using assms by (auto simp: remote_ls_def filter_empty_conv ns_data_log_pattern_iff)

lemma launch_wait_frame:
  assumes "launch_wait env logs s = Some s'"
  shows "s' = s\<lparr>calls := calls s'\<rparr>"
proof -
  have step: "s' = s\<lparr>calls := calls s'\<rparr>"
    if ih: "\<And>env logs s y. f env logs s = Some y \<Longrightarrow> y = s\<lparr>calls := calls y\<rparr>"
    and body: "(if proc_poll env (calls (call Poll s)) = None
      then (if fst (ns_ls env logs (call Poll s)) = []
            then f env logs (host_sleep 500 (snd (ns_ls env logs (call Poll s))))
            else Some (snd (ns_ls env logs (call Poll s))))
      else Some (call Poll s)) = Some s'"
    for f :: "env \<Rightarrow> string \<Rightarrow> fuzzer \<Rightarrow> fuzzer option" and env logs s s'
  proof (cases "proc_poll env (calls (call Poll s)) = None")
    case False
    with body show ?thesis by (auto simp: call_def)
  next
    case True
    show ?thesis
    proof (cases "fst (ns_ls env logs (call Poll s)) = []")
      case False
      with True body show ?thesis by (auto simp: call_def ns_ls_unfold)
    next
      case empty: True
      with True body have
        "f env logs (host_sleep 500 (snd (ns_ls env logs (call Poll s)))) = Some s'"
        by simp
      from ih[OF this]
      have "s' = (s\<lparr>calls := calls s @ [Poll, NsLs logs, Sleep 500]\<rparr>)\<lparr>calls := calls s'\<rparr>"
        by (simp add: call_def ns_ls_unfold host_sleep_def)
      then show ?thesis by simp
    qed
  qed
  show ?thesis
    by (rule launch_wait.raw_induct[where P = "\<lambda>env logs s s'. s' = s\<lparr>calls := calls s'\<rparr>",
          OF step assms])
qed

lemma launch_background_result:
  assumes "\<not> foreground s" and "launch env s = Some (r, s')"
    and "\<forall>h. remote_ls env h (ns_data LOG_PATTERN) = []"
  shows "r = Inl (HostError [package s @ ''/'' @ executable s @ '' failed to start.''])"
proof -
  from assms(1,2) obtain s4 where w: "launch_wait env (ns_data LOG_PATTERN) (launch_popen s) = Some s4"
    by (auto simp: launch_def Let_def launch_popen_keeps split: option.splits)
  from launch_wait_frame[OF w] have "s4 = (launch_popen s)\<lparr>calls := calls s4\<rparr>" .
  note f = this
  have k: "package s4 = package s" "executable s4 = executable s"
    by (subst f, simp add: launch_popen_keeps)+
  show ?thesis
    using assms
    by (simp add: launch_def Let_def launch_popen_keeps w ns_ls_unfold str_fuzzer_def k)
qed

text \<open>
  C10, as the claim states it, fails: when the log of job 0 reports the log of job 10 as a
  written test unit, \<open>monitor\<close> fetches \<open>data/fuzz-10.log\<close> with the artifacts of the
  log it symbolizes, and the log of job 10 is copied into the output directory.
\<close>

theorem monitor_fetches_job10_counterexample:
  "filter is_fetch (new_calls fuzzer0 (snd (the (monitor env_job10 fuzzer0)))) =
     [NsFetch ''out'' [''data/fuzz-[0-9].log''], NsFetch ''out'' [''data/fuzz-10.log'']]
   \<and> map_of (files (snd (the (monitor env_job10 fuzzer0)))) ''out/fuzz-10.log'' = Some ''log of job 10''"
proof -
  have a: "\<forall>k<(0::nat). executable_url fuzzer0
             \<in> set (cs_info env_job10 (calls fuzzer0 @ wait_rounds k @ [CsInfo]))"
    by simp
  have b: "executable_url fuzzer0
             \<notin> set (cs_info env_job10 (calls fuzzer0 @ wait_rounds 0 @ [CsInfo]))"
    by (simp add: env_job10_def env0_def)
  show ?thesis
    unfolding monitor_def monitor_wait_rounds[OF a b] option.case option.sel
    by code_simp
qed

text \<open>
  C10, amended. The pattern \<open>fuzz-[0-9].log\<close> in the data directory matches exactly the
  names \<open>fuzz-<d>.log\<close> with a single digit \<open>d\<close>. So the log of a job numbered 10 or
  more is not detected by a launch: as long as the device holds no log with a single-digit
  index, whatever else it holds, a background launch never succeeds, and it fails with
  \<open>failed to start\<close> after the poll that finds the process exited. And in every run of
  \<open>monitor\<close> that returns, the retrieval of the logs (the fetch of the pattern) does not
  copy such a log and leaves a file of its name in the output directory as it was, the
  remote removal, the only one made, is of the pattern, which does not match it, and no
  file of its name in the output directory is opened for symbolizing or removed. The
  fetches of the artifacts that the symbolized logs report are not so limited.
\<close>

theorem log_pattern_single_digit_jobs:
  assumes "10 \<le> n" and "name = ''fuzz-'' @ str_nat n @ ''.log''"
  shows "(\<forall>nm. glob_match (ns_data LOG_PATTERN) (ns_data nm)
              \<longleftrightarrow> (\<exists>d. isdigit d \<and> nm = ''fuzz-'' @ [d] @ ''.log'')) \<and>
         (\<not> foreground s \<and>
          (\<forall>h. \<forall>nm\<in>fst ` set (remote_data env h).
                 \<not> (\<exists>d. isdigit d \<and> nm = ''fuzz-'' @ [d] @ ''.log'')) \<longrightarrow>
            (\<forall>r s'. launch env s = Some (r, s') \<longrightarrow>
               r = Inl (HostError [package s @ ''/'' @ executable s @ '' failed to start.''])) \<and>
            (\<forall>m. (\<forall>k<m. proc_poll env (calls (launch_popen s) @ poll_rounds k @ [Poll]) = None) \<and>
                  proc_poll env (calls (launch_popen s) @ poll_rounds m @ [Poll]) \<noteq> None \<longrightarrow>
               (\<exists>s'. launch env s =
                        Some (Inl (HostError [package s @ ''/'' @ executable s @ '' failed to start.'']), s')
                    \<and> calls s' = calls (launch_popen s) @ poll_rounds m @
                                   [Poll, NsLs (ns_data LOG_PATTERN)]))) \<and>
         (\<forall>r s'. monitor env s = Some (r, s') \<longrightarrow>
            (\<exists>k sw evs.
               calls sw = calls s @ wait_rounds k @ [CsInfo] \<and> files sw = files s \<and>
               calls s' = calls s @ wait_rounds k @
                 [CsInfo, NsFetch (output_dir s) [ns_data LOG_PATTERN], NsRemove (ns_data LOG_PATTERN),
                  Glob (path_join (output_dir s) LOG_PATTERN)] @ evs \<and>
               name \<notin> fst ` set (fetched env (calls sw @ [NsFetch (output_dir s) [ns_data LOG_PATTERN]])
                                    [ns_data LOG_PATTERN]) \<and>
               map_of (files (ns_fetch env (output_dir s) [ns_data LOG_PATTERN] sw))
                      (path_join (output_dir s) name) =
                 map_of (files s) (path_join (output_dir s) name) \<and>
               \<not> glob_match (ns_data LOG_PATTERN) (ns_data name) \<and>
               (\<forall>e\<in>set evs. e \<noteq> OpenR (path_join (output_dir s) name) \<and>
                              e \<noteq> Remove (path_join (output_dir s) name) \<and>
                              \<not> is_remote_remove e)))"
proof (intro conjI)
  show "\<forall>nm. glob_match (ns_data LOG_PATTERN) (ns_data nm)
              \<longleftrightarrow> (\<exists>d. isdigit d \<and> nm = ''fuzz-'' @ [d] @ ''.log'')"
    using ns_data_log_pattern_iff by blast
next
  show "\<not> foreground s \<and>
          (\<forall>h. \<forall>nm\<in>fst ` set (remote_data env h).
                 \<not> (\<exists>d. isdigit d \<and> nm = ''fuzz-'' @ [d] @ ''.log'')) \<longrightarrow>
            (\<forall>r s'. launch env s = Some (r, s') \<longrightarrow>
               r = Inl (HostError [package s @ ''/'' @ executable s @ '' failed to start.''])) \<and>
            (\<forall>m. (\<forall>k<m. proc_poll env (calls (launch_popen s) @ poll_rounds k @ [Poll]) = None) \<and>
                  proc_poll env (calls (launch_popen s) @ poll_rounds m @ [Poll]) \<noteq> None \<longrightarrow>
               (\<exists>s'. launch env s =
                        Some (Inl (HostError [package s @ ''/'' @ executable s @ '' failed to start.'']), s')
                    \<and> calls s' = calls (launch_popen s) @ poll_rounds m @
                                   [Poll, NsLs (ns_data LOG_PATTERN)]))"
  proof (intro impI, elim conjE, intro conjI allI impI)
    assume bg: "\<not> foreground s"
      and dev: "\<forall>h. \<forall>nm\<in>fst ` set (remote_data env h).
                 \<not> (\<exists>d. isdigit d \<and> nm = ''fuzz-'' @ [d] @ ''.log'')"
    have ls: "\<forall>h. remote_ls env h (ns_data LOG_PATTERN) = []"
      using dev no_single_digit_log_listing by blast
    {
      fix r s' assume "launch env s = Some (r, s')"
      from launch_background_result[OF bg this ls]
      show "r = Inl (HostError [package s @ ''/'' @ executable s @ '' failed to start.''])" .
    next
      fix m
      assume p: "(\<forall>k<m. proc_poll env (calls (launch_popen s) @ poll_rounds k @ [Poll]) = None) \<and>
                  proc_poll env (calls (launch_popen s) @ poll_rounds m @ [Poll]) \<noteq> None"
      let ?s3 = "launch_popen s"
      have w: "launch_wait env (ns_data LOG_PATTERN) ?s3 =
                 Some (?s3\<lparr>calls := calls ?s3 @ poll_rounds m @ [Poll]\<rparr>)"
        using launch_wait_rounds[of m env ?s3] p ls by simp
      show "\<exists>s'. launch env s =
                        Some (Inl (HostError [package s @ ''/'' @ executable s @ '' failed to start.'']), s')
                    \<and> calls s' = calls (launch_popen s) @ poll_rounds m @
                                   [Poll, NsLs (ns_data LOG_PATTERN)]"
        using bg ls
        by (simp add: launch_def Let_def w launch_popen_keeps ns_ls_unfold str_fuzzer_def)
    }
  qed
next
  note g = job_log_not_matched[OF assms(1), folded assms(2)]
  show "\<forall>r s'. monitor env s = Some (r, s') \<longrightarrow>
            (\<exists>k sw evs.
               calls sw = calls s @ wait_rounds k @ [CsInfo] \<and> files sw = files s \<and>
               calls s' = calls s @ wait_rounds k @
                 [CsInfo, NsFetch (output_dir s) [ns_data LOG_PATTERN], NsRemove (ns_data LOG_PATTERN),
                  Glob (path_join (output_dir s) LOG_PATTERN)] @ evs \<and>
               name \<notin> fst ` set (fetched env (calls sw @ [NsFetch (output_dir s) [ns_data LOG_PATTERN]])
                                    [ns_data LOG_PATTERN]) \<and>
               map_of (files (ns_fetch env (output_dir s) [ns_data LOG_PATTERN] sw))
                      (path_join (output_dir s) name) =
                 map_of (files s) (path_join (output_dir s) name) \<and>
               \<not> glob_match (ns_data LOG_PATTERN) (ns_data name) \<and>
               (\<forall>e\<in>set evs. e \<noteq> OpenR (path_join (output_dir s) name) \<and>
                              e \<noteq> Remove (path_join (output_dir s) name) \<and>
                              \<not> is_remote_remove e))"
  proof (intro allI impI)
    fix r s' assume m: "monitor env s = Some (r, s')"
    from monitor_returns_trace[OF m] obtain k sw bs evs where
      t: "length bs = length (local_logs env sw)" "output_dir sw = output_dir s"
         "files sw = files s" "calls sw = calls s @ wait_rounds k @ [CsInfo]"
         "calls s' = calls s @ wait_rounds k @
            [CsInfo, NsFetch (output_dir s) [ns_data LOG_PATTERN], NsRemove (ns_data LOG_PATTERN),
             Glob (path_join (output_dir s) LOG_PATTERN)] @ evs"
         "filter is_file_event evs = log_steps (output_dir s) 0 (local_logs env sw) bs"
         "\<forall>e\<in>set evs. \<not> is_remote_remove e"
      by blast
    have f: "name \<notin> fst ` set (fetched env (calls sw @ [NsFetch (output_dir s) [ns_data LOG_PATTERN]])
                                    [ns_data LOG_PATTERN])"
      using g(1) by (auto simp: fetched_def)
    have h: "map_of (files (ns_fetch env (output_dir s) [ns_data LOG_PATTERN] sw))
                      (path_join (output_dir s) name) =
                 map_of (files s) (path_join (output_dir s) name)"
      using retrieval_leaves_job_log[OF assms, of env "output_dir s" sw] by (simp add: t(3))
    have e: "\<forall>e\<in>set evs. e \<noteq> OpenR (path_join (output_dir s) name) \<and>
                              e \<noteq> Remove (path_join (output_dir s) name) \<and>
                              \<not> is_remote_remove e"
    proof
      fix e assume e: "e \<in> set evs"
      have "\<not> (e = OpenR (path_join (output_dir s) name) \<or> e = Remove (path_join (output_dir s) name))"
      proof
        assume p: "e = OpenR (path_join (output_dir s) name) \<or> e = Remove (path_join (output_dir s) name)"
        with e have "e \<in> set (filter is_file_event evs)" by auto
        then have "OpenR (path_join (output_dir s) name) \<in> set (log_steps (output_dir s) 0 (local_logs env sw) bs) \<or>
               Remove (path_join (output_dir s) name) \<in> set (log_steps (output_dir s) 0 (local_logs env sw) bs)"
          using p unfolding t(6) by auto
        from log_steps_members[OF t(1) this]
        have "path_join (output_dir s) name \<in> set (local_logs env sw)" .
        from local_logs_match[OF this] g(2)[of "output_dir s"] show False by (simp add: t(2))
      qed
      with t(7) e show "e \<noteq> OpenR (path_join (output_dir s) name) \<and>
                              e \<noteq> Remove (path_join (output_dir s) name) \<and>
                              \<not> is_remote_remove e" by blast
    qed
    from t(4) t(3) t(5) f h g(1) e
    show "\<exists>k sw evs.
               calls sw = calls s @ wait_rounds k @ [CsInfo] \<and> files sw = files s \<and>
               calls s' = calls s @ wait_rounds k @
                 [CsInfo, NsFetch (output_dir s) [ns_data LOG_PATTERN], NsRemove (ns_data LOG_PATTERN),
                  Glob (path_join (output_dir s) LOG_PATTERN)] @ evs \<and>
               name \<notin> fst ` set (fetched env (calls sw @ [NsFetch (output_dir s) [ns_data LOG_PATTERN]])
                                    [ns_data LOG_PATTERN]) \<and>
               map_of (files (ns_fetch env (output_dir s) [ns_data LOG_PATTERN] sw))
                      (path_join (output_dir s) name) =
                 map_of (files s) (path_join (output_dir s) name) \<and>
               \<not> glob_match (ns_data LOG_PATTERN) (ns_data name) \<and>
               (\<forall>e\<in>set evs. e \<noteq> OpenR (path_join (output_dir s) name) \<and>
                              e \<noteq> Remove (path_join (output_dir s) name) \<and>
                              \<not> is_remote_remove e)"
      by blast
  qed
qed

theorem log_pattern_single_digit_jobs_witness:
  "(10::nat) \<le> 10 \<and> ''fuzz-10.log'' = ''fuzz-'' @ str_nat 10 @ ''.log'' \<and>
   glob_match (ns_data LOG_PATTERN) (ns_data ''fuzz-9.log'') \<and>
   \<not> foreground fuzzer0 \<and>
   ''fuzz-10.log'' \<in> fst ` set (remote_data env_job10_launch []) \<and>
   proc_poll env_job10_launch (calls (launch_popen fuzzer0) @ poll_rounds 1 @ [Poll]) = None \<and>
   (\<exists>s'. launch env_job10_launch fuzzer0 =
            Some (Inl (HostError [''fake-package1/fake-target1 failed to start.'']), s')
        \<and> calls s' = calls (launch_popen fuzzer0) @ poll_rounds 2 @ [Poll, NsLs ''data/fuzz-[0-9].log'']) \<and>
   ''fuzz-10.log'' \<in> fst ` set (remote_data env_job10 []) \<and>
   (\<exists>r s'. monitor env_job10 fuzzer0 = Some (r, s') \<and>
      OpenR ''out/fuzz-10.log'' \<notin> set (calls s') \<and> Remove ''out/fuzz-10.log'' \<notin> set (calls s') \<and>
      filter is_remote_remove (calls s') = [NsRemove ''data/fuzz-[0-9].log''])"
proof -
  have a: "(10::nat) \<le> 10" by simp
  have b: "''fuzz-10.log'' = ''fuzz-'' @ str_nat 10 @ ''.log''" by code_simp
  have c: "isdigit CHR ''9''" by code_simp
  have bg: "\<not> foreground fuzzer0" by (simp add: fuzzer0_def)
  have hl: "calls (launch_popen fuzzer0) = [Mkdir (output_dir fuzzer0),
      Ssh (fuzz_cmd (fuzzer0\<lparr>options := launch_options fuzzer0\<rparr>))]"
    by (simp add: launch_popen_calls fuzzer0_def)
  have dl: "\<forall>h. \<forall>nm\<in>fst ` set (remote_data env_job10_launch h).
                 \<not> (\<exists>d. isdigit d \<and> nm = ''fuzz-'' @ [d] @ ''.log'')"
    by (simp add: env_job10_launch_def env0_def)
  have p0: "\<forall>k<(2::nat). proc_poll env_job10_launch (calls (launch_popen fuzzer0) @ poll_rounds k @ [Poll]) = None"
  proof (intro allI impI)
    fix k :: nat assume "k < 2"
    then have "k = 0 \<or> k = 1" by auto
    then show "proc_poll env_job10_launch (calls (launch_popen fuzzer0) @ poll_rounds k @ [Poll]) = None"
      by (auto simp: hl env_job10_launch_def env0_def poll_rounds_def)
  qed
  have p1: "proc_poll env_job10_launch (calls (launch_popen fuzzer0) @ poll_rounds 1 @ [Poll]) = None"
    using p0 by simp
  have p2: "proc_poll env_job10_launch (calls (launch_popen fuzzer0) @ poll_rounds 2 @ [Poll]) \<noteq> None"
    by (simp add: hl env_job10_launch_def env0_def poll_rounds_def numeral_2_eq_2)
  have m0: "\<forall>k<(0::nat). executable_url fuzzer0
             \<in> set (cs_info env_job10 (calls fuzzer0 @ wait_rounds k @ [CsInfo]))"
    by simp
  have m1: "executable_url fuzzer0
             \<notin> set (cs_info env_job10 (calls fuzzer0 @ wait_rounds 0 @ [CsInfo]))"
    by (simp add: env_job10_def env0_def)
  obtain r s' where m: "monitor env_job10 fuzzer0 = Some (r, s')"
    unfolding monitor_def monitor_wait_rounds[OF m0 m1] option.case
    by (metis surj_pair)
  have q: "path_join (output_dir fuzzer0) ''fuzz-10.log'' = ''out/fuzz-10.log''"
    "ns_data LOG_PATTERN = ''data/fuzz-[0-9].log''" "calls fuzzer0 = []"
    by code_simp+
  have q4: "package fuzzer0 = ''fake-package1''" "executable fuzzer0 = ''fake-target1''"
    by (simp_all add: fuzzer0_def)
  note t = log_pattern_single_digit_jobs[OF a b, of fuzzer0 env_job10_launch]
  note u = log_pattern_single_digit_jobs[OF a b, of fuzzer0 env_job10]
  from t have pat: "glob_match (ns_data LOG_PATTERN) (ns_data ''fuzz-9.log'')
              \<longleftrightarrow> (\<exists>d. isdigit d \<and> ''fuzz-9.log'' = ''fuzz-'' @ [d] @ ''.log'')"
    by blast
  have pat9: "glob_match (ns_data LOG_PATTERN) (ns_data ''fuzz-9.log'')"
    unfolding pat using c by auto
  from t bg dl p0 p2 have "\<exists>s'. launch env_job10_launch fuzzer0 =
            Some (Inl (HostError [package fuzzer0 @ ''/'' @ executable fuzzer0 @ '' failed to start.'']), s')
        \<and> calls s' = calls (launch_popen fuzzer0) @ poll_rounds 2 @ [Poll, NsLs (ns_data LOG_PATTERN)]"
    by blast
  then have l: "\<exists>s'. launch env_job10_launch fuzzer0 =
            Some (Inl (HostError [''fake-package1/fake-target1 failed to start.'']), s')
        \<and> calls s' = calls (launch_popen fuzzer0) @ poll_rounds 2 @ [Poll, NsLs ''data/fuzz-[0-9].log'']"
    by (simp add: q(2) q4)
  from u m obtain k evs where
    v: "calls s' = calls fuzzer0 @ wait_rounds k @
                 [CsInfo, NsFetch (output_dir fuzzer0) [ns_data LOG_PATTERN], NsRemove (ns_data LOG_PATTERN),
                  Glob (path_join (output_dir fuzzer0) LOG_PATTERN)] @ evs"
       "\<forall>e\<in>set evs. e \<noteq> OpenR (path_join (output_dir fuzzer0) ''fuzz-10.log'') \<and>
                              e \<noteq> Remove (path_join (output_dir fuzzer0) ''fuzz-10.log'') \<and>
                              \<not> is_remote_remove e"
    by blast
  have w: "\<forall>e\<in>set (wait_rounds k). e = CsInfo \<or> e = Sleep 2000"
    by (auto simp: wait_rounds_def)
  have fw: "filter is_remote_remove (wait_rounds k) = []"
    using w by (auto simp: filter_empty_conv)
  have fe: "filter is_remote_remove evs = []"
    using v(2) by (auto simp: filter_empty_conv)
  have o1: "OpenR ''out/fuzz-10.log'' \<notin> set (calls s')" "Remove ''out/fuzz-10.log'' \<notin> set (calls s')"
    using v(2) w unfolding v(1) q(1) q(3) by auto
  have o2: "filter is_remote_remove (calls s') = [NsRemove ''data/fuzz-[0-9].log'']"
    unfolding v(1) q(3) by (simp add: fw fe q(2))
  have d1: "''fuzz-10.log'' \<in> fst ` set (remote_data env_job10_launch [])"
    "''fuzz-10.log'' \<in> fst ` set (remote_data env_job10 [])"
    by (simp_all add: env_job10_launch_def env_job10_def env0_def)
  from a b pat9 bg d1 p1 l m o1 o2 show ?thesis by blast
qed

end
